theory Spec2Isabelle
  imports Main "HOL-Library.Word"
begin

unbundle bit_operations_syntax

section \<open>Python values used by both examples\<close>

text \<open>
  A Python \<open>bytes\<close> object is a list of 8-bit words; Python's unbounded \<open>int\<close> is
  \<open>int\<close>; a hexadecimal \<open>str\<close> is a \<open>string\<close>. Every exception the examples can
  raise is a constructor of \<open>error\<close>, and a function that can raise returns
  \<open>error + 'a\<close> with \<open>Inl\<close> for the exception.
\<close>

type_synonym byte = "8 word"
type_synonym bytes = "byte list"

datatype error =
    IndexError
  | ValueError
  | ValueOutOfBounds
  | UnicodeEncodeError
  | DecodingError
  | TransportFailure

subsection \<open>Slices and ranges\<close>

text \<open>
  \<open>xs[a:b]\<close>: a negative bound counts from the end, and both bounds are clamped to
  the list, so a slice never raises.
\<close>

definition py_slice :: "'a list \<Rightarrow> int \<Rightarrow> int \<Rightarrow> 'a list" where
  "py_slice xs a b =
     (let n = int (length xs);
          lo = (if a < 0 then max 0 (a + n) else min a n);
          hi = (if b < 0 then max 0 (b + n) else min b n)
      in if lo < hi then take (nat (hi - lo)) (drop (nat lo) xs) else [])"

text \<open>\<open>range(i, stop, step)\<close> for a non-zero step (a zero step raises before the loop).\<close>

function py_range :: "int \<Rightarrow> int \<Rightarrow> int \<Rightarrow> int list" where
  "py_range i stop step =
     (if 0 < step \<and> i < stop then i # py_range (i + step) stop step
      else if step < 0 \<and> stop < i then i # py_range (i + step) stop step
      else [])"
  by pat_completeness auto
termination
  by (relation "measure (\<lambda>(i, stop, step). nat (if 0 < step then stop - i else i - stop))") auto

declare py_range.simps [simp del]

subsection \<open>Hexadecimal text\<close>

text \<open>
  \<open>hex_digit\<close> is the digit \<open>bytes.hex()\<close> prints for a value below 16 (lower case), and
  \<open>digit_val\<close> the value Python reads from a hexadecimal digit of either case.
\<close>

definition hex_digit :: "nat \<Rightarrow> char" where
  "hex_digit n = (if n < 10 then char_of (48 + n) else char_of (87 + n))"

definition digit_val :: "char \<Rightarrow> nat option" where
  "digit_val c =
     (let k = (of_char c :: nat)
      in if 48 \<le> k \<and> k \<le> 57 then Some (k - 48)
         else if 97 \<le> k \<and> k \<le> 102 then Some (k - 87)
         else if 65 \<le> k \<and> k \<le> 70 then Some (k - 55)
         else None)"

definition is_hex_digit :: "char \<Rightarrow> bool" where
  "is_hex_digit c = (digit_val c \<noteq> None)"

text \<open>\<open>bytes.hex()\<close>: two lower-case digits per byte.\<close>

definition hex_byte :: "byte \<Rightarrow> string" where
  "hex_byte b = [hex_digit (unat b div 16), hex_digit (unat b mod 16)]"

definition bytes_hex :: "bytes \<Rightarrow> string" where
  "bytes_hex bs = concat (map hex_byte bs)"

text \<open>
  \<open>bytes.fromhex(s)\<close>: ASCII whitespace is skipped in front of a pair of digits and at
  the end, never inside a pair; anything else that is not a pair of hexadecimal digits
  raises ValueError.
\<close>

definition is_space :: "char \<Rightarrow> bool" where
  "is_space c = ((of_char c :: nat) \<in> {9, 10, 11, 12, 13, 32})"

fun bytes_fromhex :: "string \<Rightarrow> error + bytes" where
  "bytes_fromhex [] = Inr []"
| "bytes_fromhex [c] = (if is_space c then Inr [] else Inl ValueError)"
| "bytes_fromhex (c # d # cs) =
     (if is_space c then bytes_fromhex (d # cs)
      else (case (digit_val c, digit_val d) of
              (Some h, Some l) \<Rightarrow>
                (case bytes_fromhex cs of
                   Inl e \<Rightarrow> Inl e
                 | Inr bs \<Rightarrow> Inr (of_nat (16 * h + l) # bs))
            | _ \<Rightarrow> Inl ValueError))"

text \<open>\<open>s.replace("0x", "")\<close>: every occurrence is deleted, scanning from the left.\<close>

fun replace_0x :: "string \<Rightarrow> string" where
  "replace_0x (c # d # cs) =
     (if c = CHR ''0'' \<and> d = CHR ''x'' then replace_0x cs else c # replace_0x (d # cs))"
| "replace_0x cs = cs"

text \<open>
  \<open>int(s, 16)\<close> on a \<open>str\<close> of code points below 256, as CPython reads it: whitespace
  around the number is skipped (the ASCII blanks, and the two blank code points 133 and
  160 above ASCII); an optional sign comes first, then an optional \<open>0x\<close> or \<open>0X\<close>, which
  one underscore may follow, then hexadecimal digits of either case with single
  underscores between them. A text without a digit, an underscore at the start, at the
  end or after another underscore, and any other character raise ValueError (the value
  \<open>None\<close>).
\<close>

definition int_space :: "char \<Rightarrow> bool" where
  "int_space c = ((of_char c :: nat) \<in> {9, 10, 11, 12, 13, 32, 133, 160})"

text \<open>The sign: whether the number is negative, and the text after the sign.\<close>

fun strip_sign :: "string \<Rightarrow> bool \<times> string" where
  "strip_sign [] = (False, [])"
| "strip_sign (c # cs) =
     (if c = CHR ''+'' then (False, cs)
      else if c = CHR ''-'' then (True, cs)
      else (False, c # cs))"

text \<open>The prefix of base 16 and the one underscore that may follow it.\<close>

fun strip_0x :: "string \<Rightarrow> string" where
  "strip_0x (a # b # cs) =
     (if a = CHR ''0'' \<and> (b = CHR ''x'' \<or> b = CHR ''X'')
      then (case cs of [] \<Rightarrow> [] | u # r \<Rightarrow> if u = CHR ''_'' then r else cs)
      else a # b # cs)"
| "strip_0x cs = cs"

fun leading_underscore :: "string \<Rightarrow> bool" where
  "leading_underscore [] = False"
| "leading_underscore (c # cs) = (c = CHR ''_'')"

text \<open>
  The scan of the digits: the value so far, the number of digits read, and the text
  that is left at the first character that is neither a digit nor an underscore.
\<close>

fun scan_digits :: "string \<Rightarrow> bool \<Rightarrow> nat \<Rightarrow> nat \<Rightarrow> (nat \<times> nat \<times> string) option" where
  "scan_digits [] prev_underscore acc digits =
     (if prev_underscore then None else Some (acc, digits, []))"
| "scan_digits (c # cs) prev_underscore acc digits =
     (if c = CHR ''_'' then
        (if prev_underscore then None else scan_digits cs True acc digits)
      else
        (case digit_val c of
           Some d \<Rightarrow> scan_digits cs False (16 * acc + d) (digits + 1)
         | None \<Rightarrow> if prev_underscore then None else Some (acc, digits, c # cs)))"

definition py_int16 :: "string \<Rightarrow> int option" where
  "py_int16 s =
     (case strip_sign (dropWhile int_space s) of (negative, s2) \<Rightarrow>
        (let s3 = strip_0x s2
         in if leading_underscore s3 then None
            else
              (case scan_digits s3 False 0 0 of
                 None \<Rightarrow> None
               | Some (v, digits, rest) \<Rightarrow>
                   if digits = 0 \<or> \<not> list_all int_space rest then None
                   else Some (if negative then - int v else int v))))"

subsection \<open>Big-endian integers\<close>

text \<open>\<open>n.to_bytes(k, "big")\<close> for \<open>n < 256 ^ k\<close>, and \<open>int.from_bytes(bs, "big")\<close>.\<close>

primrec be_bytes :: "nat \<Rightarrow> nat \<Rightarrow> bytes" where
  "be_bytes 0 n = []"
| "be_bytes (Suc k) n = be_bytes k (n div 256) @ [of_nat n]"

definition be_nat :: "bytes \<Rightarrow> nat" where
  "be_nat bs = foldl (\<lambda>a b. 256 * a + unat b) 0 bs"

text \<open>\<open>xs[i]\<close> for a non-negative \<open>i\<close> on a bytes object: the byte as an int, or IndexError.\<close>

definition byte_at :: "bytes \<Rightarrow> nat \<Rightarrow> error + int" where
  "byte_at data i = (if i < length data then Inr (uint (data ! i)) else Inl IndexError)"

section \<open>The contract ABI encoder and the address helper (library functions)\<close>

text \<open>
  \<open>eth_abi.encode\<close> and \<open>Web3.to_checksum_address\<close> are library functions the examples
  call. They are modelled here for the four argument types the examples use, following
  the contract ABI as \<open>eth_abi\<close> implements it: every static value is one 32-byte
  big-endian word; a string is dynamic, its head word is the offset of its data from the
  start of the tuple, and its data is a length word followed by the UTF-8 bytes padded
  with zeros to a multiple of 32. An integer outside its type's range raises
  ValueOutOfBounds.

  A Python \<open>str\<close> that is encoded as UTF-8 is a list of code points. An address is kept as
  its 20 bytes: the mixed-case rendering that \<open>to_checksum_address\<close> returns differs from
  its argument only in letter case, which the encoder does not read.
\<close>

type_synonym py_str = "nat list"

definition utf8_char :: "nat \<Rightarrow> error + bytes" where
  "utf8_char cp =
     (if cp < 0x80 then Inr [of_nat cp]
      else if cp < 0x800 then Inr [of_nat (0xC0 + cp div 64), of_nat (0x80 + cp mod 64)]
      else if cp < 0x10000 then
        (if 0xD800 \<le> cp \<and> cp < 0xE000 then Inl UnicodeEncodeError
         else Inr [of_nat (0xE0 + cp div 4096), of_nat (0x80 + cp div 64 mod 64),
                   of_nat (0x80 + cp mod 64)])
      else if cp < 0x110000 then
        Inr [of_nat (0xF0 + cp div 262144), of_nat (0x80 + cp div 4096 mod 64),
             of_nat (0x80 + cp div 64 mod 64), of_nat (0x80 + cp mod 64)]
      else Inl UnicodeEncodeError)"

fun utf8_encode :: "py_str \<Rightarrow> error + bytes" where
  "utf8_encode [] = Inr []"
| "utf8_encode (cp # cps) =
     (case utf8_char cp of
        Inl e \<Rightarrow> Inl e
      | Inr b \<Rightarrow> (case utf8_encode cps of Inl e \<Rightarrow> Inl e | Inr bs \<Rightarrow> Inr (b @ bs)))"

text \<open>The text of an ASCII literal as code points.\<close>

definition ascii :: "string \<Rightarrow> py_str" where
  "ascii s = map of_char s"

definition to_checksum_address :: "string \<Rightarrow> error + bytes" where
  "to_checksum_address v =
     (let h = (if take 2 v = ''0x'' \<or> take 2 v = ''0X'' then drop 2 v else v)
      in if length h = 40 \<and> list_all is_hex_digit h then bytes_fromhex h else Inl ValueError)"

datatype abi_value =
    AbiUint nat int
  | AbiBool bool
  | AbiAddress bytes
  | AbiString py_str

definition ceil32 :: "nat \<Rightarrow> nat" where
  "ceil32 n = (if n mod 32 = 0 then n else n + 32 - n mod 32)"

definition encode_uint :: "nat \<Rightarrow> int \<Rightarrow> error + bytes" where
  "encode_uint bits v =
     (if 0 \<le> v \<and> v < 2 ^ bits then Inr (be_bytes 32 (nat v)) else Inl ValueOutOfBounds)"

definition encode_string :: "py_str \<Rightarrow> error + bytes" where
  "encode_string s =
     (case utf8_encode s of
        Inl e \<Rightarrow> Inl e
      | Inr value_as_bytes \<Rightarrow>
          Inr (be_bytes 32 (length value_as_bytes) @ value_as_bytes
               @ replicate (ceil32 (length value_as_bytes) - length value_as_bytes) 0))"

fun encode_value :: "abi_value \<Rightarrow> error + bytes" where
  "encode_value (AbiUint bits v) = encode_uint bits v"
| "encode_value (AbiBool b) = Inr (be_bytes 32 (if b then 1 else 0))"
| "encode_value (AbiAddress a) = Inr (replicate 12 0 @ a)"
| "encode_value (AbiString s) = encode_string s"

fun is_dynamic :: "abi_value \<Rightarrow> bool" where
  "is_dynamic (AbiString s) = True"
| "is_dynamic v = False"

text \<open>The first value that fails to encode raises, and nothing is returned.\<close>

fun encode_values :: "abi_value list \<Rightarrow> error + bytes list" where
  "encode_values [] = Inr []"
| "encode_values (v # vs) =
     (case encode_value v of
        Inl e \<Rightarrow> Inl e
      | Inr c \<Rightarrow> (case encode_values vs of Inl e \<Rightarrow> Inl e | Inr cs \<Rightarrow> Inr (c # cs)))"

text \<open>
  The tuple encoder. A static value's chunk goes in the head and a dynamic value's in
  the tail; the head word of a dynamic value is the head's length plus the length of
  the tail chunks before it.
\<close>

fun tail_offsets :: "nat \<Rightarrow> bytes list \<Rightarrow> nat list" where
  "tail_offsets acc [] = []"
| "tail_offsets acc (t # ts) = acc # tail_offsets (acc + length t) ts"

definition encode :: "abi_value list \<Rightarrow> error + bytes" where
  "encode vals =
     (case encode_values vals of
        Inl e \<Rightarrow> Inl e
      | Inr chunks \<Rightarrow>
          (let dyn = map is_dynamic vals;
               tail_chunks = map (\<lambda>(d, c). if d then c else []) (zip dyn chunks);
               head_length = sum_list (map (\<lambda>(d, c). if d then 32 else length c) (zip dyn chunks));
               head_chunks = map (\<lambda>((d, c), off). if d then be_bytes 32 (head_length + off) else c)
                                 (zip (zip dyn chunks) (tail_offsets 0 tail_chunks))
           in Inr (concat head_chunks @ concat tail_chunks)))"

section \<open>corewriter_example.py\<close>

datatype ActionId =
    LIMIT_ORDER | VAULT_TRANSFER | TOKEN_DELEGATE | STAKING_DEPOSIT | STAKING_WITHDRAW
  | SPOT_SEND | USD_CLASS_TRANSFER | FINALIZE_EVM_CONTRACT | ADD_API_WALLET
  | CANCEL_ORDER_BY_OID | CANCEL_ORDER_BY_CLOID | APPROVE_BUILDER_FEE | SEND_ASSET
  | REFLECT_EVM_SUPPLY | BORROW_LEND_OP

text \<open>The value of each member of the \<open>IntEnum\<close>.\<close>

fun action_value :: "ActionId \<Rightarrow> int" where
  "action_value LIMIT_ORDER = 1"
| "action_value VAULT_TRANSFER = 2"
| "action_value TOKEN_DELEGATE = 3"
| "action_value STAKING_DEPOSIT = 4"
| "action_value STAKING_WITHDRAW = 5"
| "action_value SPOT_SEND = 6"
| "action_value USD_CLASS_TRANSFER = 7"
| "action_value FINALIZE_EVM_CONTRACT = 8"
| "action_value ADD_API_WALLET = 9"
| "action_value CANCEL_ORDER_BY_OID = 10"
| "action_value CANCEL_ORDER_BY_CLOID = 11"
| "action_value APPROVE_BUILDER_FEE = 12"
| "action_value SEND_ASSET = 13"
| "action_value REFLECT_EVM_SUPPLY = 14"
| "action_value BORROW_LEND_OP = 15"

definition VERSION :: int where
  "VERSION = 0x01"

record LimitOrderParams =
  asset :: int
  is_buy :: bool
  limit_px :: int
  sz :: int
  reduce_only :: bool
  encoded_tif :: int
  cloid :: int

record VaultTransferParams =
  vault :: string
  is_deposit :: bool
  usd :: int

record TokenDelegateParams =
  validator :: string
  wei :: int
  is_undelegate :: bool

record StakingParams =
  wei :: int

record SpotSendParams =
  destination :: string
  token :: int
  wei :: int

record UsdClassTransferParams =
  ntl :: int
  to_perp :: bool

record FinalizeEvmContractParams =
  token :: int
  variant :: int
  create_nonce :: int

record AddApiWalletParams =
  wallet :: string
  name :: py_str

record CancelOrderByOidParams =
  asset :: int
  oid :: int

record CancelOrderByCloidParams =
  asset :: int
  cloid :: int

record ApproveBuilderFeeParams =
  max_fee_rate :: int
  builder :: string

record SendAssetParams =
  dest :: string
  sub_account :: string
  src_dex :: int
  dest_dex :: int
  token :: int
  wei :: int

record ReflectEvmSupplyParams =
  token :: int
  wei :: int
  is_mint :: bool

record BorrowLendOpParams =
  operation :: int
  token :: int
  wei :: int

text \<open>\<open>_encode_header\<close>: the version byte and the action id in three big-endian bytes.\<close>

definition encode_header :: "int \<Rightarrow> bytes" where
  "encode_header action_id =
     [of_int VERSION,
      of_int (drop_bit 16 action_id AND 0xFF),
      of_int (drop_bit 8 action_id AND 0xFF),
      of_int (action_id AND 0xFF)]"

definition concat_bytes :: "bytes \<Rightarrow> bytes \<Rightarrow> bytes" where
  "concat_bytes header data = header @ data"

text \<open>
  Every builder makes the header, encodes its fields and joins the two; an exception of
  the address helper or of the encoder leaves the builder.
\<close>

definition with_header :: "ActionId \<Rightarrow> error + bytes \<Rightarrow> error + bytes" where
  "with_header a r =
     (let header = encode_header (action_value a)
      in case r of Inl e \<Rightarrow> Inl e | Inr data \<Rightarrow> Inr (concat_bytes header data))"

definition build_limit_order :: "LimitOrderParams \<Rightarrow> error + bytes" where
  "build_limit_order params =
     with_header LIMIT_ORDER
       (encode [AbiUint 32 (LimitOrderParams.asset params), AbiBool (is_buy params),
                AbiUint 64 (limit_px params), AbiUint 64 (sz params),
                AbiBool (reduce_only params), AbiUint 8 (encoded_tif params),
                AbiUint 128 (LimitOrderParams.cloid params)])"

definition build_vault_transfer :: "VaultTransferParams \<Rightarrow> error + bytes" where
  "build_vault_transfer params =
     with_header VAULT_TRANSFER
       (case to_checksum_address (vault params) of
          Inl e \<Rightarrow> Inl e
        | Inr vault_addr \<Rightarrow>
            encode [AbiAddress vault_addr, AbiBool (is_deposit params), AbiUint 64 (usd params)])"

definition build_token_delegate :: "TokenDelegateParams \<Rightarrow> error + bytes" where
  "build_token_delegate params =
     with_header TOKEN_DELEGATE
       (case to_checksum_address (validator params) of
          Inl e \<Rightarrow> Inl e
        | Inr validator_addr \<Rightarrow>
            encode [AbiAddress validator_addr, AbiUint 64 (TokenDelegateParams.wei params),
                    AbiBool (is_undelegate params)])"

definition build_staking_deposit :: "StakingParams \<Rightarrow> error + bytes" where
  "build_staking_deposit params =
     with_header STAKING_DEPOSIT (encode [AbiUint 64 (StakingParams.wei params)])"

definition build_staking_withdraw :: "StakingParams \<Rightarrow> error + bytes" where
  "build_staking_withdraw params =
     with_header STAKING_WITHDRAW (encode [AbiUint 64 (StakingParams.wei params)])"

definition build_spot_send :: "SpotSendParams \<Rightarrow> error + bytes" where
  "build_spot_send params =
     with_header SPOT_SEND
       (case to_checksum_address (destination params) of
          Inl e \<Rightarrow> Inl e
        | Inr dest_addr \<Rightarrow>
            encode [AbiAddress dest_addr, AbiUint 64 (SpotSendParams.token params),
                    AbiUint 64 (SpotSendParams.wei params)])"

definition build_usd_class_transfer :: "UsdClassTransferParams \<Rightarrow> error + bytes" where
  "build_usd_class_transfer params =
     with_header USD_CLASS_TRANSFER (encode [AbiUint 64 (ntl params), AbiBool (to_perp params)])"

definition build_finalize_evm_contract :: "FinalizeEvmContractParams \<Rightarrow> error + bytes" where
  "build_finalize_evm_contract params =
     with_header FINALIZE_EVM_CONTRACT
       (encode [AbiUint 64 (FinalizeEvmContractParams.token params), AbiUint 8 (variant params),
                AbiUint 64 (create_nonce params)])"

definition build_add_api_wallet :: "AddApiWalletParams \<Rightarrow> error + bytes" where
  "build_add_api_wallet params =
     with_header ADD_API_WALLET
       (case to_checksum_address (wallet params) of
          Inl e \<Rightarrow> Inl e
        | Inr wallet_addr \<Rightarrow> encode [AbiAddress wallet_addr, AbiString (name params)])"

definition build_cancel_order_by_oid :: "CancelOrderByOidParams \<Rightarrow> error + bytes" where
  "build_cancel_order_by_oid params =
     with_header CANCEL_ORDER_BY_OID
       (encode [AbiUint 32 (CancelOrderByOidParams.asset params), AbiUint 64 (oid params)])"

definition build_cancel_order_by_cloid :: "CancelOrderByCloidParams \<Rightarrow> error + bytes" where
  "build_cancel_order_by_cloid params =
     with_header CANCEL_ORDER_BY_CLOID
       (encode [AbiUint 32 (CancelOrderByCloidParams.asset params),
                AbiUint 128 (CancelOrderByCloidParams.cloid params)])"

definition build_approve_builder_fee :: "ApproveBuilderFeeParams \<Rightarrow> error + bytes" where
  "build_approve_builder_fee params =
     with_header APPROVE_BUILDER_FEE
       (case to_checksum_address (builder params) of
          Inl e \<Rightarrow> Inl e
        | Inr builder_addr \<Rightarrow> encode [AbiUint 64 (max_fee_rate params), AbiAddress builder_addr])"

definition build_send_asset :: "SendAssetParams \<Rightarrow> error + bytes" where
  "build_send_asset params =
     with_header SEND_ASSET
       (case to_checksum_address (dest params) of
          Inl e \<Rightarrow> Inl e
        | Inr dest_addr \<Rightarrow>
            (case to_checksum_address (sub_account params) of
               Inl e \<Rightarrow> Inl e
             | Inr sub_addr \<Rightarrow>
                 encode [AbiAddress dest_addr, AbiAddress sub_addr, AbiUint 32 (src_dex params),
                         AbiUint 32 (dest_dex params), AbiUint 64 (SendAssetParams.token params),
                         AbiUint 64 (SendAssetParams.wei params)]))"

definition build_reflect_evm_supply :: "ReflectEvmSupplyParams \<Rightarrow> error + bytes" where
  "build_reflect_evm_supply params =
     with_header REFLECT_EVM_SUPPLY
       (encode [AbiUint 64 (ReflectEvmSupplyParams.token params),
                AbiUint 64 (ReflectEvmSupplyParams.wei params), AbiBool (is_mint params)])"

definition build_borrow_lend_op :: "BorrowLendOpParams \<Rightarrow> error + bytes" where
  "build_borrow_lend_op params =
     with_header BORROW_LEND_OP
       (encode [AbiUint 8 (operation params), AbiUint 64 (BorrowLendOpParams.token params),
                AbiUint 64 (BorrowLendOpParams.wei params)])"

text \<open>
  \<open>decode_action\<close> takes \<open>bytes\<close> or a hexadecimal \<open>str\<close>. The indexing raises IndexError
  on an input shorter than four bytes; \<open>params\<close> is returned as hexadecimal text after
  \<open>0x\<close>.
\<close>

datatype action_data = Raw bytes | HexStr string

record DecodedAction =
  version :: int
  action_id :: int
  params :: string

definition normalize :: "action_data \<Rightarrow> error + bytes" where
  "normalize data = (case data of HexStr s \<Rightarrow> bytes_fromhex (replace_0x s) | Raw b \<Rightarrow> Inr b)"

definition decode_action :: "action_data \<Rightarrow> error + DecodedAction" where
  "decode_action data0 =
     (case normalize data0 of
        Inl e \<Rightarrow> Inl e
      | Inr data \<Rightarrow>
     (case byte_at data 0 of
        Inl e \<Rightarrow> Inl e
      | Inr d0 \<Rightarrow>
     (case byte_at data 1 of
        Inl e \<Rightarrow> Inl e
      | Inr d1 \<Rightarrow>
     (case byte_at data 2 of
        Inl e \<Rightarrow> Inl e
      | Inr d2 \<Rightarrow>
     (case byte_at data 3 of
        Inl e \<Rightarrow> Inl e
      | Inr d3 \<Rightarrow>
          Inr \<lparr>version = d0,
               action_id = push_bit 16 d1 OR push_bit 8 d2 OR d3,
               params = ''0x'' @ bytes_hex (drop 4 data)\<rparr>)))))"

text \<open>
  The fifteen builders take fifteen parameter records. To speak of all of them at once,
  \<open>action\<close> tags a record with its builder, \<open>build\<close> calls that builder, and
  \<open>well_typed\<close> says that every field has the type its comment in the source gives it:
  an integer within its width, a string that the address helper accepts, a name that
  UTF-8 can encode.
\<close>

datatype action =
    LimitOrder LimitOrderParams
  | VaultTransfer VaultTransferParams
  | TokenDelegate TokenDelegateParams
  | StakingDeposit StakingParams
  | StakingWithdraw StakingParams
  | SpotSend SpotSendParams
  | UsdClassTransfer UsdClassTransferParams
  | FinalizeEvmContract FinalizeEvmContractParams
  | AddApiWallet AddApiWalletParams
  | CancelOrderByOid CancelOrderByOidParams
  | CancelOrderByCloid CancelOrderByCloidParams
  | ApproveBuilderFee ApproveBuilderFeeParams
  | SendAsset SendAssetParams
  | ReflectEvmSupply ReflectEvmSupplyParams
  | BorrowLendOp BorrowLendOpParams

fun action_kind :: "action \<Rightarrow> ActionId" where
  "action_kind (LimitOrder p) = LIMIT_ORDER"
| "action_kind (VaultTransfer p) = VAULT_TRANSFER"
| "action_kind (TokenDelegate p) = TOKEN_DELEGATE"
| "action_kind (StakingDeposit p) = STAKING_DEPOSIT"
| "action_kind (StakingWithdraw p) = STAKING_WITHDRAW"
| "action_kind (SpotSend p) = SPOT_SEND"
| "action_kind (UsdClassTransfer p) = USD_CLASS_TRANSFER"
| "action_kind (FinalizeEvmContract p) = FINALIZE_EVM_CONTRACT"
| "action_kind (AddApiWallet p) = ADD_API_WALLET"
| "action_kind (CancelOrderByOid p) = CANCEL_ORDER_BY_OID"
| "action_kind (CancelOrderByCloid p) = CANCEL_ORDER_BY_CLOID"
| "action_kind (ApproveBuilderFee p) = APPROVE_BUILDER_FEE"
| "action_kind (SendAsset p) = SEND_ASSET"
| "action_kind (ReflectEvmSupply p) = REFLECT_EVM_SUPPLY"
| "action_kind (BorrowLendOp p) = BORROW_LEND_OP"

fun build :: "action \<Rightarrow> error + bytes" where
  "build (LimitOrder p) = build_limit_order p"
| "build (VaultTransfer p) = build_vault_transfer p"
| "build (TokenDelegate p) = build_token_delegate p"
| "build (StakingDeposit p) = build_staking_deposit p"
| "build (StakingWithdraw p) = build_staking_withdraw p"
| "build (SpotSend p) = build_spot_send p"
| "build (UsdClassTransfer p) = build_usd_class_transfer p"
| "build (FinalizeEvmContract p) = build_finalize_evm_contract p"
| "build (AddApiWallet p) = build_add_api_wallet p"
| "build (CancelOrderByOid p) = build_cancel_order_by_oid p"
| "build (CancelOrderByCloid p) = build_cancel_order_by_cloid p"
| "build (ApproveBuilderFee p) = build_approve_builder_fee p"
| "build (SendAsset p) = build_send_asset p"
| "build (ReflectEvmSupply p) = build_reflect_evm_supply p"
| "build (BorrowLendOp p) = build_borrow_lend_op p"

definition is_uint :: "nat \<Rightarrow> int \<Rightarrow> bool" where
  "is_uint bits v = (0 \<le> v \<and> v < 2 ^ bits)"

definition is_address :: "string \<Rightarrow> bool" where
  "is_address s = (case to_checksum_address s of Inl e \<Rightarrow> False | Inr a \<Rightarrow> True)"

definition is_text :: "py_str \<Rightarrow> bool" where
  "is_text s = (case utf8_encode s of Inl e \<Rightarrow> False | Inr b \<Rightarrow> True)"

fun well_typed :: "action \<Rightarrow> bool" where
  "well_typed (LimitOrder p) =
     (is_uint 32 (LimitOrderParams.asset p) \<and> is_uint 64 (limit_px p) \<and> is_uint 64 (sz p)
      \<and> is_uint 8 (encoded_tif p) \<and> is_uint 128 (LimitOrderParams.cloid p))"
| "well_typed (VaultTransfer p) = (is_address (vault p) \<and> is_uint 64 (usd p))"
| "well_typed (TokenDelegate p) = (is_address (validator p) \<and> is_uint 64 (TokenDelegateParams.wei p))"
| "well_typed (StakingDeposit p) = is_uint 64 (StakingParams.wei p)"
| "well_typed (StakingWithdraw p) = is_uint 64 (StakingParams.wei p)"
| "well_typed (SpotSend p) =
     (is_address (destination p) \<and> is_uint 64 (SpotSendParams.token p)
      \<and> is_uint 64 (SpotSendParams.wei p))"
| "well_typed (UsdClassTransfer p) = is_uint 64 (ntl p)"
| "well_typed (FinalizeEvmContract p) =
     (is_uint 64 (FinalizeEvmContractParams.token p) \<and> is_uint 8 (variant p)
      \<and> is_uint 64 (create_nonce p))"
| "well_typed (AddApiWallet p) = (is_address (wallet p) \<and> is_text (name p))"
| "well_typed (CancelOrderByOid p) =
     (is_uint 32 (CancelOrderByOidParams.asset p) \<and> is_uint 64 (oid p))"
| "well_typed (CancelOrderByCloid p) =
     (is_uint 32 (CancelOrderByCloidParams.asset p) \<and> is_uint 128 (CancelOrderByCloidParams.cloid p))"
| "well_typed (ApproveBuilderFee p) = (is_uint 64 (max_fee_rate p) \<and> is_address (builder p))"
| "well_typed (SendAsset p) =
     (is_address (dest p) \<and> is_address (sub_account p) \<and> is_uint 32 (src_dex p)
      \<and> is_uint 32 (dest_dex p) \<and> is_uint 64 (SendAssetParams.token p)
      \<and> is_uint 64 (SendAssetParams.wei p))"
| "well_typed (ReflectEvmSupply p) =
     (is_uint 64 (ReflectEvmSupplyParams.token p) \<and> is_uint 64 (ReflectEvmSupplyParams.wei p))"
| "well_typed (BorrowLendOp p) =
     (is_uint 8 (operation p) \<and> is_uint 64 (BorrowLendOpParams.token p)
      \<and> is_uint 64 (BorrowLendOpParams.wei p))"

section \<open>multicall_example.py: chunk_list\<close>

text \<open>
  \<^verbatim>\<open>return [lst[i:i + chunk_size] for i in range(0, len(lst), chunk_size)]\<close>
  \<open>range\<close> raises ValueError for a step of zero.
\<close>

definition chunk_list :: "'a list \<Rightarrow> int \<Rightarrow> error + 'a list list" where
  "chunk_list lst chunk_size =
     (if chunk_size = 0 then Inl ValueError
      else Inr (map (\<lambda>i. py_slice lst i (i + chunk_size))
                    (py_range 0 (int (length lst)) chunk_size)))"

section \<open>multicall_example.py: records and the decoder of perpAssetInfo\<close>

record Position =
  perp_index :: int
  szi :: int
  entry_ntl :: int
  isolated_raw_usd :: int
  leverage :: int
  is_isolated :: bool

record SpotBalance =
  token_index :: int
  total :: int
  hold :: int
  entry_ntl :: int

record PerpAssetInfo =
  index :: int
  coin :: string
  margin_table_id :: int
  sz_decimals :: int
  max_leverage :: int
  only_isolated :: bool

text \<open>
  \<open>read_uint\<close>, the local function of \<open>_parse_perp_asset_info\<close>: the word is cut out of
  the hexadecimal text with a slice, which never raises, and read with \<open>int(_, 16)\<close>,
  which raises only on an empty slice.
\<close>

definition read_uint :: "string \<Rightarrow> int \<Rightarrow> int option" where
  "read_uint hex_data word_index =
     (let start = 2 + word_index * 64;
          slice_data = py_slice hex_data start (start + 64)
      in py_int16 slice_data)"

text \<open>
  The loop \<^verbatim>\<open>for j in range(0, len(string_hex), 2)\<close>: two characters at a time (one at
  the end of a text of odd length), each pair read as a character code and appended to
  \<open>coin\<close> unless it is 0.
\<close>

fun coin_loop :: "string \<Rightarrow> string \<Rightarrow> string option" where
  "coin_loop [] acc = Some acc"
| "coin_loop [a] acc =
     (case py_int16 [a] of
        None \<Rightarrow> None
      | Some char_code \<Rightarrow> Some (if char_code > 0 then acc @ [char_of char_code] else acc))"
| "coin_loop (a # b # rest) acc =
     (case py_int16 [a, b] of
        None \<Rightarrow> None
      | Some char_code \<Rightarrow>
          coin_loop rest (if char_code > 0 then acc @ [char_of char_code] else acc))"

text \<open>
  \<open>_parse_perp_asset_info\<close>. The whole body is inside \<open>try\<close>, and \<open>except Exception\<close>
  returns \<open>None\<close>: every exception is the value \<open>None\<close>.
\<close>

definition parse_perp_asset_info :: "string \<Rightarrow> int \<Rightarrow> PerpAssetInfo option" where
  "parse_perp_asset_info hex_data0 idx =
     (let hex_data = (if take 2 hex_data0 \<noteq> ''0x'' then ''0x'' @ hex_data0 else hex_data0)
      in
     (case read_uint hex_data 0 of
        None \<Rightarrow> None
      | Some word0 \<Rightarrow>
     (let tuple_offset = word0 div 32 in
     (case read_uint hex_data tuple_offset of
        None \<Rightarrow> None
      | Some string_offset \<Rightarrow>
     (case read_uint hex_data (tuple_offset + 1) of
        None \<Rightarrow> None
      | Some mt \<Rightarrow>
     (case read_uint hex_data (tuple_offset + 2) of
        None \<Rightarrow> None
      | Some sd \<Rightarrow>
     (case read_uint hex_data (tuple_offset + 3) of
        None \<Rightarrow> None
      | Some ml \<Rightarrow>
     (case read_uint hex_data (tuple_offset + 4) of
        None \<Rightarrow> None
      | Some oi \<Rightarrow>
     (let string_start = tuple_offset + string_offset div 32 in
     (case read_uint hex_data string_start of
        None \<Rightarrow> None
      | Some string_length \<Rightarrow>
     (let string_data_start = 2 + (string_start + 1) * 64;
          string_hex = py_slice hex_data string_data_start
                         (string_data_start + string_length * 2)
      in
     (case coin_loop string_hex [] of
        None \<Rightarrow> None
      | Some c \<Rightarrow>
          Some \<lparr>index = idx, coin = c, margin_table_id = mt, sz_decimals = sd,
                max_leverage = ml, only_isolated = (oi \<noteq> 0)\<rparr>))))))))))))"

text \<open>
  The response of the perpAssetInfo precompile that the decoder expects, as the contract
  ABI lays out a tuple with a leading string: a word with the offset of the tuple
  (\<open>0x20\<close>), the tuple's head of five words (the offset of the string from the head,
  \<open>0xa0\<close>, then the four static fields), a length word and the string's bytes, followed by
  padding. The precompile belongs to the execution engine, not to the repository; this
  definition only says which responses count as well formed.
\<close>

definition perp_asset_info_response ::
    "bytes \<Rightarrow> nat \<Rightarrow> nat \<Rightarrow> nat \<Rightarrow> nat \<Rightarrow> bytes \<Rightarrow> bytes" where
  "perp_asset_info_response symbol mt sd ml oi padding =
     be_bytes 32 0x20 @ be_bytes 32 0xa0 @ be_bytes 32 mt @ be_bytes 32 sd @ be_bytes 32 ml
     @ be_bytes 32 oi @ be_bytes 32 (length symbol) @ symbol @ padding"

section \<open>multicall_example.py: batched queries\<close>

subsection \<open>The ABI decoder (library function)\<close>

text \<open>
  \<open>eth_abi.decode\<close> for the static types the examples read, as the library does it: each
  value is read from the next 32 bytes of the payload, and decoding fails when fewer
  than 32 bytes are left, when the padding in front of the value is not made of zero
  bytes (of \<open>0xff\<close> bytes for a negative integer), or when a boolean is neither 0 nor 1.
  Bytes after the last value are not read.
\<close>

definition word_at :: "bytes \<Rightarrow> nat \<Rightarrow> bytes" where
  "word_at data k = take 32 (drop (32 * k) data)"

definition decode_uint :: "nat \<Rightarrow> bytes \<Rightarrow> int option" where
  "decode_uint bits w =
     (let n = bits div 8
      in if length w = 32 \<and> take (32 - n) w = replicate (32 - n) 0
         then Some (int (be_nat (drop (32 - n) w))) else None)"

definition decode_int :: "nat \<Rightarrow> bytes \<Rightarrow> int option" where
  "decode_int bits w =
     (let n = bits div 8;
          raw = int (be_nat (drop (32 - n) w));
          v = (if 2 ^ (bits - 1) \<le> raw then raw - 2 ^ bits else raw)
      in if length w = 32 \<and> take (32 - n) w = replicate (32 - n) (if 0 \<le> v then 0 else 0xFF)
         then Some v else None)"

definition decode_bool :: "bytes \<Rightarrow> bool option" where
  "decode_bool w =
     (if length w = 32 \<and> take 31 w = replicate 31 0
      then (if w ! 31 = 0 then Some False else if w ! 31 = 1 then Some True else None)
      else None)"

text \<open>\<^verbatim>\<open>decode(["int64", "uint64", "int64", "uint32", "bool"], return_data)\<close>\<close>

definition decode_position :: "bytes \<Rightarrow> (int \<times> int \<times> int \<times> int \<times> bool) option" where
  "decode_position data =
     (case decode_int 64 (word_at data 0) of None \<Rightarrow> None | Some a \<Rightarrow>
     (case decode_uint 64 (word_at data 1) of None \<Rightarrow> None | Some b \<Rightarrow>
     (case decode_int 64 (word_at data 2) of None \<Rightarrow> None | Some c \<Rightarrow>
     (case decode_uint 32 (word_at data 3) of None \<Rightarrow> None | Some d \<Rightarrow>
     (case decode_bool (word_at data 4) of None \<Rightarrow> None | Some e \<Rightarrow>
        Some (a, b, c, d, e))))))"

text \<open>\<^verbatim>\<open>decode(["uint64", "uint64", "uint64"], return_data)\<close>\<close>

definition decode_spot_balance :: "bytes \<Rightarrow> (int \<times> int \<times> int) option" where
  "decode_spot_balance data =
     (case decode_uint 64 (word_at data 0) of None \<Rightarrow> None | Some a \<Rightarrow>
     (case decode_uint 64 (word_at data 1) of None \<Rightarrow> None | Some b \<Rightarrow>
     (case decode_uint 64 (word_at data 2) of None \<Rightarrow> None | Some c \<Rightarrow>
        Some (a, b, c))))"

subsection \<open>The Multicall3 contract (external)\<close>

text \<open>
  A call is \<open>(target, allowFailure, callData)\<close> and a result \<open>(success, returnData)\<close>.
  \<open>aggregate3(calls).call()\<close> goes to the chain: the contract is a parameter \<open>mc\<close> that
  takes the calls and the state of the world and gives the results, or an exception,
  and the next state. The state threaded through the example's functions pairs the
  world with the list of the batches issued so far.
\<close>

type_synonym call3 = "bytes \<times> bool \<times> bytes"
type_synonym result3 = "bool \<times> bytes"
type_synonym 'w multicall = "call3 list \<Rightarrow> 'w \<Rightarrow> (error + result3 list) \<times> 'w"
type_synonym 'w chain = "'w \<times> call3 list list"

definition aggregate3 ::
    "'w multicall \<Rightarrow> call3 list \<Rightarrow> 'w chain \<Rightarrow> (error + result3 list) \<times> 'w chain" where
  "aggregate3 mc calls st =
     (case mc calls (fst st) of (r, w') \<Rightarrow> (r, (w', snd st @ [calls])))"

definition PRECOMPILES_position :: string where
  "PRECOMPILES_position = ''0x0000000000000000000000000000000000000800''"

definition PRECOMPILES_spotBalance :: string where
  "PRECOMPILES_spotBalance = ''0x0000000000000000000000000000000000000801''"

definition PRECOMPILES_markPx :: string where
  "PRECOMPILES_markPx = ''0x0000000000000000000000000000000000000806''"

definition PRECOMPILES_perpAssetInfo :: string where
  "PRECOMPILES_perpAssetInfo = ''0x000000000000000000000000000000000000080a''"

text \<open>\<open>_encode_call\<close>\<close>

definition encode_call :: "string \<Rightarrow> bytes \<Rightarrow> error + call3" where
  "encode_call target calldata =
     (case to_checksum_address target of
        Inl e \<Rightarrow> Inl e
      | Inr t \<Rightarrow> Inr (t, True, calldata))"

text \<open>A list comprehension whose body can raise: the first exception leaves it.\<close>

fun map_raise :: "('a \<Rightarrow> error + 'b) \<Rightarrow> 'a list \<Rightarrow> error + 'b list" where
  "map_raise f [] = Inr []"
| "map_raise f (x # xs) =
     (case f x of
        Inl e \<Rightarrow> Inl e
      | Inr y \<Rightarrow> (case map_raise f xs of Inl e \<Rightarrow> Inl e | Inr ys \<Rightarrow> Inr (y # ys)))"

subsection \<open>Positions\<close>

definition position_call :: "bytes \<Rightarrow> int \<Rightarrow> error + call3" where
  "position_call user_addr idx =
     (case encode [AbiAddress user_addr, AbiUint 16 idx] of
        Inl e \<Rightarrow> Inl e
      | Inr calldata \<Rightarrow> encode_call PRECOMPILES_position calldata)"

text \<open>
  The loop over \<open>enumerate(results)\<close>. Decoding and \<open>perp_indices[i]\<close> are inside \<open>try\<close>,
  and \<open>except Exception: pass\<close> drops the element when either raises.
\<close>

definition position_of :: "int list \<Rightarrow> nat \<times> result3 \<Rightarrow> Position option" where
  "position_of perp_indices ir =
     (case ir of (i, success, return_data) \<Rightarrow>
        if success \<and> 32 \<le> length return_data then
          (case decode_position return_data of
             None \<Rightarrow> None
           | Some (a, b, c, d, e) \<Rightarrow>
               if i < length perp_indices
               then Some \<lparr>perp_index = perp_indices ! i, szi = a, entry_ntl = b,
                          isolated_raw_usd = c, leverage = d, is_isolated = e\<rparr>
               else None)
        else None)"

definition batch_get_positions ::
    "'w multicall \<Rightarrow> string \<Rightarrow> int list \<Rightarrow> 'w chain \<Rightarrow> (error + Position list) \<times> 'w chain" where
  "batch_get_positions mc user perp_indices st =
     (case to_checksum_address user of
        Inl e \<Rightarrow> (Inl e, st)
      | Inr user_addr \<Rightarrow>
     (case map_raise (position_call user_addr) perp_indices of
        Inl e \<Rightarrow> (Inl e, st)
      | Inr calls \<Rightarrow>
     (case aggregate3 mc calls st of
        (Inl e, st') \<Rightarrow> (Inl e, st')
      | (Inr results, st') \<Rightarrow>
          (Inr (List.map_filter (position_of perp_indices) (enumerate 0 results)), st'))))"

text \<open>The loop \<^verbatim>\<open>for chunk in chunks\<close> of \<open>get_all_positions\<close>, with \<open>all_positions\<close>.\<close>

fun positions_loop ::
    "'w multicall \<Rightarrow> string \<Rightarrow> int list list \<Rightarrow> Position list \<Rightarrow> 'w chain
     \<Rightarrow> (error + Position list) \<times> 'w chain" where
  "positions_loop mc user [] all_positions st = (Inr all_positions, st)"
| "positions_loop mc user (chunk # chunks) all_positions st =
     (case batch_get_positions mc user chunk st of
        (Inl e, st') \<Rightarrow> (Inl e, st')
      | (Inr positions, st') \<Rightarrow>
          positions_loop mc user chunks (all_positions @ positions) st')"

definition get_all_positions ::
    "'w multicall \<Rightarrow> string \<Rightarrow> 'w chain \<Rightarrow> (error + Position list) \<times> 'w chain" where
  "get_all_positions mc user st =
     (let total_perps = 225;
          batch_size = 200;
          all_indices = py_range 0 total_perps 1
      in case chunk_list all_indices batch_size of
           Inl e \<Rightarrow> (Inl e, st)
         | Inr chunks \<Rightarrow> positions_loop mc user chunks [] st)"

definition get_non_zero_positions ::
    "'w multicall \<Rightarrow> string \<Rightarrow> 'w chain \<Rightarrow> (error + Position list) \<times> 'w chain" where
  "get_non_zero_positions mc user st =
     (case get_all_positions mc user st of
        (Inl e, st') \<Rightarrow> (Inl e, st')
      | (Inr all_positions, st') \<Rightarrow> (Inr (filter (\<lambda>p. szi p \<noteq> 0) all_positions), st'))"

text \<open>
  The call that \<open>position_call\<close> builds for an index that fits 16 bits: the address
  \<open>0x...0800\<close>, \<open>allowFailure = True\<close>, and the two words of the user and the index.
\<close>

definition position_request :: "bytes \<Rightarrow> int \<Rightarrow> call3" where
  "position_request user_addr idx =
     (replicate 18 0 @ [0x08, 0x00], True, (replicate 12 0 @ user_addr) @ be_bytes 32 (nat idx))"

subsection \<open>Spot balances\<close>

definition spot_balance_call :: "bytes \<Rightarrow> int \<Rightarrow> error + call3" where
  "spot_balance_call user_addr idx =
     (case encode [AbiAddress user_addr, AbiUint 64 idx] of
        Inl e \<Rightarrow> Inl e
      | Inr calldata \<Rightarrow> encode_call PRECOMPILES_spotBalance calldata)"

definition balance_of :: "int list \<Rightarrow> nat \<times> result3 \<Rightarrow> SpotBalance option" where
  "balance_of token_indices ir =
     (case ir of (i, success, return_data) \<Rightarrow>
        if success \<and> 24 \<le> length return_data then
          (case decode_spot_balance return_data of
             None \<Rightarrow> None
           | Some (a, b, c) \<Rightarrow>
               if i < length token_indices
               then Some \<lparr>token_index = token_indices ! i, total = a, hold = b, entry_ntl = c\<rparr>
               else None)
        else None)"

definition batch_get_spot_balances ::
    "'w multicall \<Rightarrow> string \<Rightarrow> int list \<Rightarrow> 'w chain \<Rightarrow> (error + SpotBalance list) \<times> 'w chain" where
  "batch_get_spot_balances mc user token_indices st =
     (case to_checksum_address user of
        Inl e \<Rightarrow> (Inl e, st)
      | Inr user_addr \<Rightarrow>
     (case map_raise (spot_balance_call user_addr) token_indices of
        Inl e \<Rightarrow> (Inl e, st)
      | Inr calls \<Rightarrow>
     (case aggregate3 mc calls st of
        (Inl e, st') \<Rightarrow> (Inl e, st')
      | (Inr results, st') \<Rightarrow>
          (Inr (List.map_filter (balance_of token_indices) (enumerate 0 results)), st'))))"

fun balances_loop ::
    "'w multicall \<Rightarrow> string \<Rightarrow> int list list \<Rightarrow> SpotBalance list \<Rightarrow> 'w chain
     \<Rightarrow> (error + SpotBalance list) \<times> 'w chain" where
  "balances_loop mc user [] all_balances st = (Inr all_balances, st)"
| "balances_loop mc user (chunk # chunks) all_balances st =
     (case batch_get_spot_balances mc user chunk st of
        (Inl e, st') \<Rightarrow> (Inl e, st')
      | (Inr balances, st') \<Rightarrow>
          balances_loop mc user chunks (all_balances @ balances) st')"

definition get_all_spot_balances ::
    "'w multicall \<Rightarrow> string \<Rightarrow> 'w chain \<Rightarrow> (error + SpotBalance list) \<times> 'w chain" where
  "get_all_spot_balances mc user st =
     (let total_tokens = 425;
          batch_size = 300;
          all_indices = py_range 0 total_tokens 1
      in case chunk_list all_indices batch_size of
           Inl e \<Rightarrow> (Inl e, st)
         | Inr chunks \<Rightarrow> balances_loop mc user chunks [] st)"

definition get_non_zero_balances ::
    "'w multicall \<Rightarrow> string \<Rightarrow> 'w chain \<Rightarrow> (error + SpotBalance list) \<times> 'w chain" where
  "get_non_zero_balances mc user st =
     (case get_all_spot_balances mc user st of
        (Inl e, st') \<Rightarrow> (Inl e, st')
      | (Inr all_balances, st') \<Rightarrow> (Inr (filter (\<lambda>b. total b \<noteq> 0) all_balances), st'))"

text \<open>
  The call that \<open>spot_balance_call\<close> builds for an index that fits 64 bits: the address
  \<open>0x...0801\<close>, \<open>allowFailure = True\<close>, and the two words of the user and the index.
\<close>

definition spot_balance_request :: "bytes \<Rightarrow> int \<Rightarrow> call3" where
  "spot_balance_request user_addr idx =
     (replicate 18 0 @ [0x08, 0x01], True, (replicate 12 0 @ user_addr) @ be_bytes 32 (nat idx))"

subsection \<open>Mark prices\<close>

definition mark_price_call :: "int \<Rightarrow> error + call3" where
  "mark_price_call idx =
     (case encode [AbiUint 32 idx] of
        Inl e \<Rightarrow> Inl e
      | Inr calldata \<Rightarrow> encode_call PRECOMPILES_markPx calldata)"

text \<open>
  The call that \<open>mark_price_call\<close> builds for an index that fits 32 bits: the address
  \<open>0x...0806\<close>, \<open>allowFailure = True\<close>, and the word of the index.
\<close>

definition mark_price_request :: "int \<Rightarrow> call3" where
  "mark_price_request idx = (replicate 18 0 @ [0x08, 0x06], True, be_bytes 32 (nat idx))"

text \<open>
  The loop of \<open>batch_get_mark_prices\<close> has no \<open>try\<close>: a payload that does not decode, or
  a result without an index, raises out of the function.
\<close>

fun prices_loop ::
    "int list \<Rightarrow> (nat \<times> result3) list \<Rightarrow> (int \<rightharpoonup> int) \<Rightarrow> error + (int \<rightharpoonup> int)" where
  "prices_loop perp_indices [] prices = Inr prices"
| "prices_loop perp_indices ((i, success, return_data) # rest) prices =
     (if success \<and> 0 < length return_data then
        (case decode_uint 64 (word_at return_data 0) of
           None \<Rightarrow> Inl DecodingError
         | Some price \<Rightarrow>
             if i < length perp_indices
             then prices_loop perp_indices rest (prices(perp_indices ! i \<mapsto> price))
             else Inl IndexError)
      else prices_loop perp_indices rest prices)"

definition batch_get_mark_prices ::
    "'w multicall \<Rightarrow> int list \<Rightarrow> 'w chain \<Rightarrow> (error + (int \<rightharpoonup> int)) \<times> 'w chain" where
  "batch_get_mark_prices mc perp_indices st =
     (case map_raise mark_price_call perp_indices of
        Inl e \<Rightarrow> (Inl e, st)
      | Inr calls \<Rightarrow>
     (case aggregate3 mc calls st of
        (Inl e, st') \<Rightarrow> (Inl e, st')
      | (Inr results, st') \<Rightarrow>
          (prices_loop perp_indices (enumerate 0 results) Map.empty, st')))"

fun all_prices_loop ::
    "'w multicall \<Rightarrow> int list list \<Rightarrow> (int \<rightharpoonup> int) \<Rightarrow> 'w chain
     \<Rightarrow> (error + (int \<rightharpoonup> int)) \<times> 'w chain" where
  "all_prices_loop mc [] all_prices st = (Inr all_prices, st)"
| "all_prices_loop mc (chunk # chunks) all_prices st =
     (case batch_get_mark_prices mc chunk st of
        (Inl e, st') \<Rightarrow> (Inl e, st')
      | (Inr prices, st') \<Rightarrow> all_prices_loop mc chunks (all_prices ++ prices) st')"

definition get_all_mark_prices ::
    "'w multicall \<Rightarrow> 'w chain \<Rightarrow> (error + (int \<rightharpoonup> int)) \<times> 'w chain" where
  "get_all_mark_prices mc st =
     (let total_perps = 225;
          batch_size = 200;
          all_indices = py_range 0 total_perps 1
      in case chunk_list all_indices batch_size of
           Inl e \<Rightarrow> (Inl e, st)
         | Inr chunks \<Rightarrow> all_prices_loop mc chunks Map.empty st)"

section \<open>Facts about slices, ranges and chunks\<close>

lemma py_slice_nonneg:
  "0 \<le> a \<Longrightarrow> a \<le> b \<Longrightarrow> py_slice xs a b = take (nat (b - a)) (drop (nat a) xs)"
  by (auto simp: py_slice_def Let_def min_def)

lemma py_range_pos_step:
  "0 < step \<Longrightarrow>
   py_range i stop step = (if i < stop then i # py_range (i + step) stop step else [])"
  by (subst py_range.simps) simp

lemma chunks_concat:
  "0 < cs \<Longrightarrow> 0 \<le> i \<Longrightarrow>
   concat (map (\<lambda>j. py_slice xs j (j + cs)) (py_range i (int (length xs)) cs)) = drop (nat i) xs"
proof (induction i "int (length xs)" cs rule: py_range.induct)
  case (1 i step)
  show ?case
  proof (cases "i < int (length xs)")
    case True
    have step: "concat (map (\<lambda>j. py_slice xs j (j + step)) (py_range (i + step) (int (length xs)) step))
                = drop (nat (i + step)) xs"
      using 1 True by simp
    have "nat (i + step) = nat i + nat step"
      using 1 by (simp add: nat_add_distrib)
    then have "take (nat step) (drop (nat i) xs) @ drop (nat (i + step)) xs = drop (nat i) xs"
      by (simp add: add.commute [of "nat i"] flip: drop_drop)
    then show ?thesis
      using 1 True step by (subst py_range_pos_step) (simp_all add: py_slice_nonneg)
  next
    case False
    then show ?thesis
      using 1 by (subst py_range_pos_step) simp_all
  qed
qed

lemma chunks_length_le:
  "0 < cs \<Longrightarrow> 0 \<le> i \<Longrightarrow>
   c \<in> set (map (\<lambda>j. py_slice xs j (j + cs)) (py_range i n cs)) \<Longrightarrow> int (length c) \<le> cs"
proof (induction i n cs rule: py_range.induct)
  case (1 i stop step)
  show ?case
  proof (cases "i < stop")
    case True
    from 1(3,4,5) True
    have "c = py_slice xs i (i + step)
          \<or> c \<in> set (map (\<lambda>j. py_slice xs j (j + step)) (py_range (i + step) stop step))"
      by (subst (asm) py_range_pos_step) auto
    then show ?thesis
    proof
      assume "c = py_slice xs i (i + step)"
      then show ?thesis using 1(3,4) by (simp add: py_slice_nonneg)
    next
      assume "c \<in> set (map (\<lambda>j. py_slice xs j (j + step)) (py_range (i + step) stop step))"
      then show ?thesis using 1(1) [OF _ 1(3)] 1(3,4) True by simp
    qed
  next
    case False
    then show ?thesis
      using 1(3,5) by (subst (asm) py_range_pos_step) simp_all
  qed
qed

lemma chunks_butlast_full:
  "0 < cs \<Longrightarrow> 0 \<le> i \<Longrightarrow>
   c \<in> set (butlast (map (\<lambda>j. py_slice xs j (j + cs)) (py_range i (int (length xs)) cs))) \<Longrightarrow>
   int (length c) = cs"
proof (induction i "int (length xs)" cs rule: py_range.induct)
  case (1 i step)
  let ?f = "\<lambda>j. py_slice xs j (j + step)"
  let ?n = "int (length xs)"
  show ?case
  proof (cases "i < ?n")
    case True
    have unfold: "py_range i ?n step = i # py_range (i + step) ?n step"
      using 1(3) True by (subst py_range_pos_step) simp_all
    show ?thesis
    proof (cases "py_range (i + step) ?n step = []")
      case True
      then show ?thesis using 1(5) unfold by simp
    next
      case False
      then have more: "i + step < ?n"
        using 1(3) by (subst (asm) py_range_pos_step) (simp_all split: if_splits)
      from 1(5) unfold False
      have "c = ?f i \<or> c \<in> set (butlast (map ?f (py_range (i + step) ?n step)))"
        by auto
      then show ?thesis
      proof
        assume "c = ?f i"
        then show ?thesis using 1(3,4) more by (simp add: py_slice_nonneg)
      next
        assume "c \<in> set (butlast (map ?f (py_range (i + step) ?n step)))"
        then show ?thesis using 1(1) [OF _ 1(3)] 1(3,4) True by simp
      qed
    qed
  next
    case False
    then show ?thesis
      using 1(3,5) by (subst (asm) py_range_pos_step) simp_all
  qed
qed

section \<open>Claims\<close>

text \<open>
  C10. For every list and every \<open>chunk_size > 0\<close>, \<open>chunk_list\<close> returns chunks that
  concatenate, in order, to exactly the list; every chunk has at most \<open>chunk_size\<close>
  elements, and every chunk except possibly the last has exactly \<open>chunk_size\<close>.
\<close>

theorem chunk_list_partition:
  assumes "0 < chunk_size"
  shows "\<exists>chunks. chunk_list lst chunk_size = Inr chunks
           \<and> concat chunks = lst
           \<and> (\<forall>c \<in> set chunks. int (length c) \<le> chunk_size)
           \<and> (\<forall>c \<in> set (butlast chunks). int (length c) = chunk_size)"
proof -
  let ?chunks = "map (\<lambda>i. py_slice lst i (i + chunk_size)) (py_range 0 (int (length lst)) chunk_size)"
  have r: "chunk_list lst chunk_size = Inr ?chunks"
    using assms by (simp add: chunk_list_def)
  have c: "concat ?chunks = lst"
    using chunks_concat [OF assms, of 0 lst] by simp
  have le: "\<forall>c \<in> set ?chunks. int (length c) \<le> chunk_size"
    using chunks_length_le [OF assms, of 0] by blast
  have full: "\<forall>c \<in> set (butlast ?chunks). int (length c) = chunk_size"
    using chunks_butlast_full [OF assms, of 0] by blast
  show ?thesis
    using r c le full by blast
qed

theorem chunk_list_partition_witness:
  "(0::int) < 2 \<and> chunk_list [1, 2, 3, 4, 5 :: nat] 2 = Inr [[1, 2], [3, 4], [5]]"
proof -
  have pos: "(0::int) < 2" by simp
  obtain chunks where
    "chunk_list [1, 2, 3, 4, 5 :: nat] 2 = Inr chunks" "concat chunks = [1, 2, 3, 4, 5 :: nat]"
    using chunk_list_partition [OF pos, of "[1, 2, 3, 4, 5 :: nat]"] by blast
  moreover have "chunk_list [1, 2, 3, 4, 5 :: nat] 2 = Inr [[1, 2], [3, 4], [5]]"
    by (simp add: chunk_list_def py_slice_def py_range.simps)
  ultimately show ?thesis by simp
qed

section \<open>Facts about the header and the builders\<close>

lemma be_bytes_numeral:
  "be_bytes (numeral k) n = be_bytes (pred_numeral k) (n div 256) @ [of_nat n]"
  by (subst numeral_eq_Suc) (rule be_bytes.simps)

lemma replicate_num: "replicate (numeral k) x = x # replicate (pred_numeral k) x"
  by (subst numeral_eq_Suc) (rule replicate.simps)

lemma encode_header_value: "encode_header (action_value k) = [1, 0, 0, of_int (action_value k)]"
  by (cases k) (simp_all add: encode_header_def VERSION_def)

lemma uint_action_byte: "uint (of_int (action_value k) :: byte) = action_value k"
  by (cases k) simp_all

lemma decode_header:
  "decode_action (Raw (encode_header (action_value k) @ data))
   = Inr \<lparr>version = 1, action_id = action_value k, params = ''0x'' @ bytes_hex data\<rparr>"
  by (simp add: decode_action_def normalize_def byte_at_def encode_header_value uint_action_byte
      nth_append)

lemma length_encode_header: "length (encode_header i) = 4"
  by (simp add: encode_header_def)

lemma with_header_decode:
  "with_header k r = Inr out \<Longrightarrow>
   decode_action (Raw out)
   = Inr \<lparr>version = 1, action_id = action_value k, params = ''0x'' @ bytes_hex (drop 4 out)\<rparr>"
  by (auto simp: with_header_def concat_bytes_def decode_header length_encode_header
      split: sum.splits)

lemma encode_uint_ok: "is_uint bits v \<Longrightarrow> encode_uint bits v = Inr (be_bytes 32 (nat v))"
  by (simp add: encode_uint_def is_uint_def)

lemma is_address_ok: "is_address s \<Longrightarrow> \<exists>a. to_checksum_address s = Inr a"
  by (simp add: is_address_def split: sum.splits)

lemma is_text_ok: "is_text s \<Longrightarrow> \<exists>b. encode_string s = Inr b"
  by (auto simp add: is_text_def encode_string_def split: sum.splits)

lemma with_header_ok: "r = Inr data \<Longrightarrow> \<exists>out. with_header k r = Inr out"
  by (simp add: with_header_def)

lemma build_ok: "well_typed a \<Longrightarrow> \<exists>out. build a = Inr out"
proof (cases a)
  case (LimitOrder p)
  assume "well_typed a"
  then show ?thesis using LimitOrder
    by (simp add: build_limit_order_def with_header_def encode_def encode_uint_ok)
next
  case (VaultTransfer p)
  assume "well_typed a"
  then show ?thesis using VaultTransfer
    by (auto simp add: build_vault_transfer_def with_header_def encode_def encode_uint_ok dest!: is_address_ok)
next
  case (TokenDelegate p)
  assume "well_typed a"
  then show ?thesis using TokenDelegate
    by (auto simp add: build_token_delegate_def with_header_def encode_def encode_uint_ok dest!: is_address_ok)
next
  case (StakingDeposit p)
  assume "well_typed a"
  then show ?thesis using StakingDeposit
    by (simp add: build_staking_deposit_def with_header_def encode_def encode_uint_ok)
next
  case (StakingWithdraw p)
  assume "well_typed a"
  then show ?thesis using StakingWithdraw
    by (simp add: build_staking_withdraw_def with_header_def encode_def encode_uint_ok)
next
  case (SpotSend p)
  assume "well_typed a"
  then show ?thesis using SpotSend
    by (auto simp add: build_spot_send_def with_header_def encode_def encode_uint_ok dest!: is_address_ok)
next
  case (UsdClassTransfer p)
  assume "well_typed a"
  then show ?thesis using UsdClassTransfer
    by (simp add: build_usd_class_transfer_def with_header_def encode_def encode_uint_ok)
next
  case (FinalizeEvmContract p)
  assume "well_typed a"
  then show ?thesis using FinalizeEvmContract
    by (simp add: build_finalize_evm_contract_def with_header_def encode_def encode_uint_ok)
next
  case (AddApiWallet p)
  assume "well_typed a"
  then show ?thesis using AddApiWallet
    by (auto simp add: build_add_api_wallet_def with_header_def encode_def dest!: is_address_ok is_text_ok)
next
  case (CancelOrderByOid p)
  assume "well_typed a"
  then show ?thesis using CancelOrderByOid
    by (simp add: build_cancel_order_by_oid_def with_header_def encode_def encode_uint_ok)
next
  case (CancelOrderByCloid p)
  assume "well_typed a"
  then show ?thesis using CancelOrderByCloid
    by (simp add: build_cancel_order_by_cloid_def with_header_def encode_def encode_uint_ok)
next
  case (ApproveBuilderFee p)
  assume "well_typed a"
  then show ?thesis using ApproveBuilderFee
    by (auto simp add: build_approve_builder_fee_def with_header_def encode_def encode_uint_ok dest!: is_address_ok)
next
  case (SendAsset p)
  assume "well_typed a"
  then show ?thesis using SendAsset
    by (auto simp add: build_send_asset_def with_header_def encode_def encode_uint_ok dest!: is_address_ok)
next
  case (ReflectEvmSupply p)
  assume "well_typed a"
  then show ?thesis using ReflectEvmSupply
    by (simp add: build_reflect_evm_supply_def with_header_def encode_def encode_uint_ok)
next
  case (BorrowLendOp p)
  assume "well_typed a"
  then show ?thesis using BorrowLendOp
    by (simp add: build_borrow_lend_op_def with_header_def encode_def encode_uint_ok)
qed

lemma build_is_with_header: "\<exists>r. build a = with_header (action_kind a) r"
  by (cases a)
     (auto simp: build_limit_order_def build_vault_transfer_def build_token_delegate_def
        build_staking_deposit_def build_staking_withdraw_def build_spot_send_def
        build_usd_class_transfer_def build_finalize_evm_contract_def build_add_api_wallet_def
        build_cancel_order_by_oid_def build_cancel_order_by_cloid_def
        build_approve_builder_fee_def build_send_asset_def build_reflect_evm_supply_def
        build_borrow_lend_op_def)

lemma action_value_range: "1 \<le> action_value k \<and> action_value k \<le> 15"
  by (cases k) simp_all


text \<open>
  C2. For each of the 15 action variants and every well-typed parameter record, the
  builder returns an encoding, and \<open>decode_action\<close> on it returns the version \<open>0x01\<close>,
  the variant's numeric id, which lies in 1..15, and as \<open>params\<close> the bytes after the
  4-byte header (in the hexadecimal text the function returns them in).
\<close>

theorem decode_action_of_build:
  assumes "well_typed a"
  shows "\<exists>out. build a = Inr out
           \<and> decode_action (Raw out)
               = Inr \<lparr>version = 0x01, action_id = action_value (action_kind a),
                      params = ''0x'' @ bytes_hex (drop 4 out)\<rparr>
           \<and> 1 \<le> action_value (action_kind a) \<and> action_value (action_kind a) \<le> 15"
proof -
  obtain out where out: "build a = Inr out"
    using build_ok [OF assms] by blast
  obtain r where "build a = with_header (action_kind a) r"
    using build_is_with_header by blast
  then have "with_header (action_kind a) r = Inr out"
    using out by simp
  then have "decode_action (Raw out)
             = Inr \<lparr>version = 1, action_id = action_value (action_kind a),
                    params = ''0x'' @ bytes_hex (drop 4 out)\<rparr>"
    by (rule with_header_decode)
  then show ?thesis
    using out action_value_range [of "action_kind a"] by simp
qed

theorem decode_action_of_build_witness:
  "well_typed (CancelOrderByOid \<lparr>CancelOrderByOidParams.asset = 3, oid = 77\<rparr>)
   \<and> (\<exists>out. build (CancelOrderByOid \<lparr>CancelOrderByOidParams.asset = 3, oid = 77\<rparr>) = Inr out
          \<and> decode_action (Raw out)
              = Inr \<lparr>version = 1, action_id = 10, params = ''0x'' @ bytes_hex (drop 4 out)\<rparr>)"
proof -
  have wt: "well_typed (CancelOrderByOid \<lparr>CancelOrderByOidParams.asset = 3, oid = 77\<rparr>)"
    by (simp add: is_uint_def)
  show ?thesis
    using wt decode_action_of_build [OF wt] by simp
qed

text \<open>
  C3. \<open>build_usd_class_transfer\<close> with \<open>ntl = 1000000\<close> and \<open>to_perp = True\<close> returns the
  header \<open>01 00 00 07\<close>, then the 32-byte word of \<open>0x0F4240\<close>, then the 32-byte word of 1.
\<close>

theorem build_usd_class_transfer_example:
  "build_usd_class_transfer \<lparr>ntl = 1000000, to_perp = True\<rparr>
   = Inr ([0x01, 0x00, 0x00, 0x07]
          @ (replicate 29 0x00 @ [0x0F, 0x42, 0x40])
          @ (replicate 31 0x00 @ [0x01]))"
  by (simp add: build_usd_class_transfer_def with_header_def encode_def encode_uint_def
      encode_header_def VERSION_def concat_bytes_def be_bytes_numeral replicate_num)


section \<open>Facts about addresses, strings and the tuple encoder\<close>

lemma hex_digit_not_space: "is_hex_digit c \<Longrightarrow> \<not> is_space c"
  by (auto simp: is_hex_digit_def digit_val_def is_space_def Let_def split: if_splits)

lemma fromhex_digits:
  "list_all is_hex_digit h \<Longrightarrow> even (length h) \<Longrightarrow>
   \<exists>bs. bytes_fromhex h = Inr bs \<and> 2 * length bs = length h"
proof (induction h rule: induct_list012)
  case 1
  then show ?case by simp
next
  case (2 c)
  then show ?case by simp
next
  case (3 c d cs)
  then obtain bs where bs: "bytes_fromhex cs = Inr bs" "2 * length bs = length cs"
    by auto
  from 3(3) obtain h l where hl: "digit_val c = Some h" "digit_val d = Some l"
    by (auto simp: is_hex_digit_def)
  have "\<not> is_space c"
    using 3(3) by (simp add: hex_digit_not_space)
  then show ?case
    using hl bs by simp
qed

lemma to_checksum_address_length:
  "to_checksum_address v = Inr a \<Longrightarrow> length a = 20"
proof -
  assume a: "to_checksum_address v = Inr a"
  define h where "h = (if take 2 v = ''0x'' \<or> take 2 v = ''0X'' then drop 2 v else v)"
  from a have h: "length h = 40" "list_all is_hex_digit h" "bytes_fromhex h = Inr a"
    unfolding to_checksum_address_def h_def by (auto simp: Let_def split: if_splits)
  then obtain bs where "bytes_fromhex h = Inr bs" "2 * length bs = length h"
    using fromhex_digits [of h] by auto
  then show ?thesis using h by simp
qed

lemma ceil32_pad: "(n + (ceil32 n - n)) mod 32 = 0 \<and> ceil32 n - n < 32"
proof (cases "n mod 32 = 0")
  case True
  then show ?thesis by (simp add: ceil32_def)
next
  case False
  define q r where "q = n div 32" and "r = n mod 32"
  have n: "n = 32 * q + r" and r: "r < 32" "r \<noteq> 0"
    using False by (simp_all add: q_def r_def)
  have pad: "ceil32 n - n = 32 - r"
    using False n r by (simp add: ceil32_def flip: r_def)
  have "n + (32 - r) = 32 * (q + 1)"
    using n r by simp
  then have "(n + (32 - r)) mod 32 = 0"
    by (simp only: mod_mult_self1_is_0)
  then show ?thesis
    using pad r by simp
qed

lemma length_be_bytes: "length (be_bytes k n) = k"
  by (induction k arbitrary: n) simp_all

lemma be_bytes_zero: "be_bytes k 0 = replicate k 0"
  by (induction k) (simp_all add: replicate_append_same)

lemma be_bytes_small: "n < 256 \<Longrightarrow> be_bytes (Suc k) n = replicate k 0 @ [of_nat n]"
  by (simp add: be_bytes_zero)

lemma be_bytes_32_small: "n < 256 \<Longrightarrow> be_bytes 32 n = replicate 31 0 @ [of_nat n]"
proof -
  assume "n < 256"
  then have "be_bytes (Suc 31) n = replicate 31 0 @ [of_nat n]"
    by (rule be_bytes_small)
  then show ?thesis by simp
qed

lemma encode_address_string:
  "utf8_encode s = Inr nb \<Longrightarrow>
   encode [AbiAddress a, AbiString s]
   = Inr ((replicate 12 0 @ a) @ be_bytes 32 (12 + length a + 32)
          @ be_bytes 32 (length nb) @ nb @ replicate (ceil32 (length nb) - length nb) 0)"
  by (simp add: encode_def encode_string_def)

lemma utf8_bot1: "utf8_encode (ascii ''bot1'') = Inr [0x62, 0x6f, 0x74, 0x31]"
  by (simp add: ascii_def utf8_char_def)



lemma checksum_example:
  "to_checksum_address ''0x3333333333333333333333333333333333333333'' = Inr (replicate 20 0x33)"
  by (simp add: to_checksum_address_def is_hex_digit_def digit_val_def is_space_def replicate_num)

text \<open>
  C1 (amended). For every wallet the address helper accepts and every name UTF-8 can
  encode, the parameter tuple of \<open>build_add_api_wallet\<close> is the address word, then an
  offset word equal to the byte length of the whole head (two words, \<open>0x40\<close>: the address
  word and the offset word itself), then a length word equal to the UTF-8 byte length of
  the name, then the name's bytes padded with fewer than 32 zero bytes to a 32-byte
  boundary. For the name \<open>bot1\<close> that is offset word \<open>0x40\<close>, length word \<open>0x04\<close> and
  \<open>62 6f 74 31\<close> followed by 28 zero bytes.
\<close>

theorem build_add_api_wallet_layout:
  assumes "to_checksum_address w = Inr a" and "utf8_encode n = Inr nb"
  shows "length a = 20
         \<and> build_add_api_wallet \<lparr>wallet = w, name = n\<rparr>
             = Inr ([0x01, 0x00, 0x00, 0x09]
                    @ (replicate 12 0x00 @ a)
                    @ be_bytes 32 0x40
                    @ be_bytes 32 (length nb)
                    @ nb @ replicate (ceil32 (length nb) - length nb) 0x00)
         \<and> (length nb + (ceil32 (length nb) - length nb)) mod 32 = 0
         \<and> ceil32 (length nb) - length nb < 32
         \<and> (n = ascii ''bot1'' \<longrightarrow>
              build_add_api_wallet \<lparr>wallet = w, name = n\<rparr>
              = Inr ([0x01, 0x00, 0x00, 0x09]
                     @ (replicate 12 0x00 @ a)
                     @ (replicate 31 0x00 @ [0x40])
                     @ (replicate 31 0x00 @ [0x04])
                     @ [0x62, 0x6f, 0x74, 0x31] @ replicate 28 0x00))"
proof -
  have len: "length a = 20"
    using assms(1) by (rule to_checksum_address_length)
  have hdr: "encode_header 9 = [0x01, 0x00, 0x00, 0x09]"
    by (simp add: encode_header_def VERSION_def)
  have gen: "build_add_api_wallet \<lparr>wallet = w, name = n\<rparr>
             = Inr ([0x01, 0x00, 0x00, 0x09] @ (replicate 12 0x00 @ a) @ be_bytes 32 0x40
                    @ be_bytes 32 (length nb) @ nb
                    @ replicate (ceil32 (length nb) - length nb) 0x00)"
    using assms len
    by (simp add: build_add_api_wallet_def with_header_def concat_bytes_def hdr
        encode_address_string)
  have bot: "n = ascii ''bot1'' \<longrightarrow>
        build_add_api_wallet \<lparr>wallet = w, name = n\<rparr>
        = Inr ([0x01, 0x00, 0x00, 0x09] @ (replicate 12 0x00 @ a)
               @ (replicate 31 0x00 @ [0x40]) @ (replicate 31 0x00 @ [0x04])
               @ [0x62, 0x6f, 0x74, 0x31] @ replicate 28 0x00)"
  proof
    assume "n = ascii ''bot1''"
    then have nb: "nb = [0x62, 0x6f, 0x74, 0x31]"
      using assms(2) by (simp add: utf8_bot1)
    have w40: "be_bytes 32 0x40 = replicate 31 0x00 @ [0x40]"
      by (simp add: be_bytes_32_small)
    have w4: "be_bytes 32 (length nb) = replicate 31 0x00 @ [0x04]"
      by (simp add: be_bytes_32_small nb)
    have pad: "ceil32 (length nb) - length nb = 28"
      by (simp add: ceil32_def nb)
    show "build_add_api_wallet \<lparr>wallet = w, name = n\<rparr>
        = Inr ([0x01, 0x00, 0x00, 0x09] @ (replicate 12 0x00 @ a)
               @ (replicate 31 0x00 @ [0x40]) @ (replicate 31 0x00 @ [0x04])
               @ [0x62, 0x6f, 0x74, 0x31] @ replicate 28 0x00)"
      unfolding gen w40 w4 pad by (simp add: nb)
  qed
  show ?thesis
    using len gen bot ceil32_pad [of "length nb"] by blast
qed

theorem build_add_api_wallet_layout_witness:
  "to_checksum_address ''0x3333333333333333333333333333333333333333'' = Inr (replicate 20 0x33)
   \<and> utf8_encode (ascii ''bot1'') = Inr [0x62, 0x6f, 0x74, 0x31]
   \<and> build_add_api_wallet
        \<lparr>wallet = ''0x3333333333333333333333333333333333333333'', name = ascii ''bot1''\<rparr>
       = Inr ([0x01, 0x00, 0x00, 0x09]
              @ (replicate 12 0x00 @ replicate 20 0x33)
              @ (replicate 31 0x00 @ [0x40])
              @ (replicate 31 0x00 @ [0x04])
              @ [0x62, 0x6f, 0x74, 0x31] @ replicate 28 0x00)"
  using build_add_api_wallet_layout [OF checksum_example utf8_bot1] checksum_example utf8_bot1
  by blast

text \<open>
  C1 as stated fails: for the name \<open>bot1\<close> the offset word is \<open>0x40\<close>, not \<open>0x20\<close>.
\<close>

theorem build_add_api_wallet_offset_counterexample:
  "build_add_api_wallet
     \<lparr>wallet = ''0x3333333333333333333333333333333333333333'', name = ascii ''bot1''\<rparr>
   = Inr ([0x01, 0x00, 0x00, 0x09]
          @ (replicate 12 0x00 @ replicate 20 0x33)
          @ (replicate 31 0x00 @ [0x40])
          @ (replicate 31 0x00 @ [0x04])
          @ [0x62, 0x6f, 0x74, 0x31] @ replicate 28 0x00)
   \<and> build_add_api_wallet
       \<lparr>wallet = ''0x3333333333333333333333333333333333333333'', name = ascii ''bot1''\<rparr>
     \<noteq> Inr ([0x01, 0x00, 0x00, 0x09]
            @ (replicate 12 0x00 @ replicate 20 0x33)
            @ (replicate 31 0x00 @ [0x20])
            @ (replicate 31 0x00 @ [0x04])
            @ [0x62, 0x6f, 0x74, 0x31] @ replicate 28 0x00)"
  by (simp add: build_add_api_wallet_def with_header_def concat_bytes_def
      encode_header_def VERSION_def checksum_example encode_address_string [OF utf8_bot1]
      be_bytes_numeral replicate_num ceil32_def)

section \<open>Facts about decode_action on malformed input\<close>

lemma fromhex_chars:
  "bytes_fromhex t = Inr bs \<Longrightarrow> c \<in> set t \<Longrightarrow> is_hex_digit c \<or> is_space c"
proof (induction t arbitrary: bs rule: bytes_fromhex.induct)
  case 1
  then show ?case by simp
next
  case (2 d)
  then show ?case by (simp split: if_splits)
next
  case (3 a b cs)
  show ?case
  proof (cases "is_space a")
    case True
    then show ?thesis using 3 by auto
  next
    case False
    then obtain h l bs' where hl: "digit_val a = Some h" "digit_val b = Some l"
      and bs': "bytes_fromhex cs = Inr bs'"
      using 3(3) by (auto split: option.splits sum.splits)
    then have "c \<in> set cs \<Longrightarrow> is_hex_digit c \<or> is_space c"
      using 3(2) False by auto
    then show ?thesis
      using 3(4) hl by (auto simp: is_hex_digit_def)
  qed
qed

lemma fromhex_error: "bytes_fromhex t = Inl e \<Longrightarrow> e = ValueError"
  by (induction t arbitrary: e rule: bytes_fromhex.induct)
     (auto split: if_splits option.splits sum.splits)

lemma replace_0x_keeps:
  "c \<in> set s \<Longrightarrow> c \<noteq> CHR ''x'' \<Longrightarrow> c \<noteq> CHR ''0'' \<Longrightarrow> c \<in> set (replace_0x s)"
  by (induction s rule: replace_0x.induct) auto

lemma zero_is_hex_digit: "is_hex_digit CHR ''0''"
  by (simp add: is_hex_digit_def digit_val_def)

lemma decode_action_short:
  "normalize d = Inr bs \<Longrightarrow> length bs < 4 \<Longrightarrow> decode_action d = Inl IndexError"
  by (auto simp: decode_action_def byte_at_def)

lemma decode_action_bad_char:
  assumes "c \<in> set s" "\<not> is_hex_digit c" "\<not> is_space c" "c \<noteq> CHR ''x''"
  shows "decode_action (HexStr s) = Inl ValueError"
proof -
  have "c \<noteq> CHR ''0''"
    using assms(2) zero_is_hex_digit by auto
  then have "c \<in> set (replace_0x s)"
    using assms(1,4) by (simp add: replace_0x_keeps)
  then have "\<not> (\<exists>bs. bytes_fromhex (replace_0x s) = Inr bs)"
    using assms(2,3) fromhex_chars by blast
  then obtain e where "bytes_fromhex (replace_0x s) = Inl e"
    by (cases "bytes_fromhex (replace_0x s)") auto
  then have "bytes_fromhex (replace_0x s) = Inl ValueError"
    using fromhex_error by blast
  then show ?thesis
    by (simp add: decode_action_def normalize_def)
qed

text \<open>
  C4 (amended). \<open>decode_action\<close> raises IndexError (the code has no error of its own
  for a malformed action) whenever its input, after normalization from hex, is fewer
  than 4 bytes; a hex-string input that contains a character which is neither a
  hexadecimal digit, nor ASCII whitespace, nor the letter \<open>x\<close> raises ValueError and
  nothing is returned.
\<close>

theorem decode_action_malformed:
  "(normalize d = Inr bs \<and> length bs < 4 \<longrightarrow> decode_action d = Inl IndexError)
   \<and> (c \<in> set s \<and> \<not> is_hex_digit c \<and> \<not> is_space c \<and> c \<noteq> CHR ''x''
        \<longrightarrow> decode_action (HexStr s) = Inl ValueError)"
  using decode_action_short decode_action_bad_char by blast

theorem decode_action_malformed_witness:
  "normalize (HexStr ''0x0100'') = Inr [0x01, 0x00] \<and> length [0x01, 0x00 :: byte] < 4
   \<and> decode_action (HexStr ''0x0100'') = Inl IndexError
   \<and> CHR ''g'' \<in> set ''0x0100000g'' \<and> \<not> is_hex_digit CHR ''g'' \<and> \<not> is_space CHR ''g''
   \<and> CHR ''g'' \<noteq> CHR ''x''
   \<and> decode_action (HexStr ''0x0100000g'') = Inl ValueError"
proof -
  have n: "normalize (HexStr ''0x0100'') = Inr [0x01, 0x00]"
    by (simp add: normalize_def digit_val_def is_space_def)
  have g: "CHR ''g'' \<in> set ''0x0100000g''" "\<not> is_hex_digit CHR ''g''" "\<not> is_space CHR ''g''"
    "CHR ''g'' \<noteq> CHR ''x''"
    by (simp_all add: is_hex_digit_def digit_val_def is_space_def)
  show ?thesis
    using n g decode_action_malformed [of "HexStr ''0x0100''" "[0x01, 0x00]" "CHR ''g''" "''0x0100000g''"]
    by simp
qed

text \<open>
  C4 as stated fails: a blank is not a hexadecimal character, yet \<open>bytes.fromhex\<close> skips
  it between bytes and the action is decoded; and \<open>replace("0x", "")\<close> deletes an \<open>0x\<close>
  in the middle of the text, not only a prefix.
\<close>

theorem decode_action_invalid_char_counterexample:
  "\<not> is_hex_digit CHR '' '' 
   \<and> decode_action (HexStr ''01 00 00 07'')
       = Inr \<lparr>version = 1, action_id = 7, params = ''0x''\<rparr>
   \<and> \<not> is_hex_digit CHR ''x''
   \<and> decode_action (HexStr ''010x000007'')
       = Inr \<lparr>version = 1, action_id = 7, params = ''0x''\<rparr>"
  by (simp add: decode_action_def normalize_def byte_at_def is_hex_digit_def digit_val_def
      is_space_def bytes_hex_def)

section \<open>Facts about the decoder of perpAssetInfo\<close>

lemma digit_val_hex_digit: "n < 16 \<Longrightarrow> digit_val (hex_digit n) = Some n"
  by (simp add: digit_val_def hex_digit_def Let_def)

lemma of_char_hex_digit:
  "n < 16 \<Longrightarrow> (of_char (hex_digit n) :: nat) = (if n < 10 then 48 + n else 87 + n)"
  by (simp add: hex_digit_def)

lemma hex_digit_plain:
  assumes "n < 16"
  shows "\<not> int_space (hex_digit n)" "hex_digit n \<noteq> CHR ''_''" "hex_digit n \<noteq> CHR ''+''"
    "hex_digit n \<noteq> CHR ''-''" "hex_digit n \<noteq> CHR ''x''" "hex_digit n \<noteq> CHR ''X''"
proof -
  have v: "(of_char (hex_digit n) :: nat) = (if n < 10 then 48 + n else 87 + n)"
    using assms by (rule of_char_hex_digit)
  show "\<not> int_space (hex_digit n)"
    using assms by (auto simp: int_space_def v split: if_splits)
  have ne: "(of_char (hex_digit n) :: nat) \<noteq> of_char c"
    if "(of_char c :: nat) \<in> {95, 43, 45, 120, 88}" for c
    using that assms by (auto simp: v split: if_splits)
  show "hex_digit n \<noteq> CHR ''_''" using ne [of "CHR ''_''"] by auto
  show "hex_digit n \<noteq> CHR ''+''" using ne [of "CHR ''+''"] by auto
  show "hex_digit n \<noteq> CHR ''-''" using ne [of "CHR ''-''"] by auto
  show "hex_digit n \<noteq> CHR ''x''" using ne [of "CHR ''x''"] by auto
  show "hex_digit n \<noteq> CHR ''X''" using ne [of "CHR ''X''"] by auto
qed

lemma hex_digit_not_x: "n < 16 \<Longrightarrow> hex_digit n \<noteq> CHR ''x''"
  by (rule hex_digit_plain)

lemma unat_byte_split: "unat (b :: byte) div 16 < 16 \<and> unat b mod 16 < 16"
proof -
  have "unat b < 256" using unsigned_less [of b] by simp
  then show ?thesis by simp
qed

lemma scan_digits_hex_byte:
  "scan_digits (hex_byte b @ rest) p a n = scan_digits rest False (256 * a + unat b) (n + 2)"
proof -
  have "16 * (16 * a + unat b div 16) + unat b mod 16 = 256 * a + unat b"
    by simp
  then show ?thesis
    using unat_byte_split [of b]
    by (simp add: hex_byte_def digit_val_hex_digit hex_digit_plain add.commute)
qed

lemma scan_digits_bytes_hex:
  "scan_digits (bytes_hex bs) False a n
   = Some (foldl (\<lambda>a b. 256 * a + unat b) a bs, n + 2 * length bs, [])"
proof (induction bs arbitrary: a n)
  case Nil
  then show ?case by (simp add: bytes_hex_def)
next
  case (Cons b bs)
  have "bytes_hex (b # bs) = hex_byte b @ bytes_hex bs"
    by (simp add: bytes_hex_def)
  then show ?case
    using Cons by (simp add: scan_digits_hex_byte)
qed

lemma length_bytes_hex: "length (bytes_hex bs) = 2 * length bs"
  by (induction bs) (simp_all add: bytes_hex_def hex_byte_def)

lemma bytes_hex_append: "bytes_hex (xs @ ys) = bytes_hex xs @ bytes_hex ys"
  by (simp add: bytes_hex_def)

lemma bytes_hex_Nil: "bytes_hex [] = []"
  by (simp add: bytes_hex_def)

lemma bytes_hex_Cons: "bytes_hex (b # bs) = hex_digit (unat b div 16) # hex_digit (unat b mod 16) # bytes_hex bs"
  by (simp add: bytes_hex_def hex_byte_def)

lemma drop_bytes_hex: "drop (2 * k) (bytes_hex bs) = bytes_hex (drop k bs)"
proof (induction bs arbitrary: k)
  case Nil
  then show ?case by (simp add: bytes_hex_def)
next
  case (Cons b bs)
  show ?case
  proof (cases k)
    case 0
    then show ?thesis by simp
  next
    case (Suc j)
    then show ?thesis using Cons [of j] by (simp add: bytes_hex_Cons)
  qed
qed

lemma take_bytes_hex: "take (2 * k) (bytes_hex bs) = bytes_hex (take k bs)"
proof (induction bs arbitrary: k)
  case Nil
  then show ?case by (simp add: bytes_hex_def)
next
  case (Cons b bs)
  show ?case
  proof (cases k)
    case 0
    then show ?thesis by (simp add: bytes_hex_def)
  next
    case (Suc j)
    then show ?thesis using Cons [of j] by (simp add: bytes_hex_Cons)
  qed
qed

lemma bytes_hex_empty: "bytes_hex bs = [] \<longleftrightarrow> bs = []"
  by (cases bs) (simp_all add: bytes_hex_def hex_byte_def)

lemma py_int16_plain:
  assumes h: "\<not> int_space h" "h \<noteq> CHR ''_''" "h \<noteq> CHR ''+''" "h \<noteq> CHR ''-''"
    and l: "l \<noteq> CHR ''x''" "l \<noteq> CHR ''X''"
    and scan: "scan_digits (h # l # r) False 0 0 = Some (v, Suc d, [])"
  shows "py_int16 (h # l # r) = Some (int v)"
proof -
  have "dropWhile int_space (h # l # r) = h # l # r"
    using h(1) by simp
  moreover have "strip_sign (h # l # r) = (False, h # l # r)"
    using h by simp
  moreover have "strip_0x (h # l # r) = h # l # r"
    using l by simp
  moreover have "\<not> leading_underscore (h # l # r)"
    using h by simp
  ultimately show ?thesis
    unfolding py_int16_def Let_def by (simp only: scan prod.case option.case) simp
qed

lemma py_int16_bytes_hex:
  "py_int16 (bytes_hex bs) = (if bs = [] then None else Some (int (be_nat bs)))"
proof (cases bs)
  case Nil
  then show ?thesis
    by (simp add: py_int16_def bytes_hex_Nil)
next
  case (Cons b bs')
  let ?h = "hex_digit (unat b div 16)" and ?l = "hex_digit (unat b mod 16)"
  have s: "bytes_hex bs = ?h # ?l # bytes_hex bs'"
    by (simp add: Cons bytes_hex_Cons)
  have plain: "\<not> int_space ?h" "?h \<noteq> CHR ''_''" "?h \<noteq> CHR ''+''" "?h \<noteq> CHR ''-''"
    "?l \<noteq> CHR ''x''" "?l \<noteq> CHR ''X''"
    using unat_byte_split [of b] by (simp_all add: hex_digit_plain)
  have "2 * length bs = Suc (Suc (2 * length bs'))"
    by (simp add: Cons)
  then have "scan_digits (bytes_hex bs) False 0 0
             = Some (be_nat bs, Suc (Suc (2 * length bs')), [])"
    using scan_digits_bytes_hex [of bs 0 0] by (simp add: be_nat_def)
  then have scan: "scan_digits (?h # ?l # bytes_hex bs') False 0 0
                   = Some (be_nat bs, Suc (Suc (2 * length bs')), [])"
    unfolding s .
  have "py_int16 (?h # ?l # bytes_hex bs') = Some (int (be_nat bs))"
    using plain scan by (rule py_int16_plain)
  then have "py_int16 (bytes_hex bs) = Some (int (be_nat bs))"
    unfolding s .
  then show ?thesis
    using Cons by simp
qed

lemma take_2_bytes_hex: "take 2 (bytes_hex bs) \<noteq> ''0x''"
proof (cases bs)
  case Nil
  then show ?thesis by (simp add: bytes_hex_def)
next
  case (Cons b bs')
  then show ?thesis
    using hex_digit_not_x [of "unat b mod 16"] unat_byte_split [of b]
    by (simp add: bytes_hex_Cons)
qed

text \<open>The word at a word index of the text of a response.\<close>

lemma read_uint_bytes_hex:
  "read_uint (''0x'' @ bytes_hex bs) (int i)
   = (if 32 * i < length bs then Some (int (be_nat (take 32 (drop (32 * i) bs)))) else None)"
proof -
  have "py_slice (''0x'' @ bytes_hex bs) (2 + int i * 64) (2 + int i * 64 + 64)
        = take 64 (drop (2 + 64 * i) (''0x'' @ bytes_hex bs))"
    by (subst py_slice_nonneg) (simp_all add: nat_add_distrib nat_mult_distrib mult.commute)
  also have "\<dots> = take (2 * 32) (drop (2 * (32 * i)) (bytes_hex bs))"
    by simp
  also have "\<dots> = bytes_hex (take 32 (drop (32 * i) bs))"
    by (simp only: drop_bytes_hex take_bytes_hex)
  finally show ?thesis
    by (simp add: read_uint_def py_int16_bytes_hex)
qed

lemma foldl_be: "foldl (\<lambda>a b. 256 * a + unat (b :: byte)) a (xs @ [x]) = 256 * foldl (\<lambda>a b. 256 * a + unat b) a xs + unat x"
  by simp

lemma be_nat_be_bytes: "be_nat (be_bytes k n) = n mod 256 ^ k"
proof (induction k arbitrary: n)
  case 0
  then show ?case by (simp add: be_nat_def)
next
  case (Suc k)
  have "be_nat (be_bytes (Suc k) n) = 256 * be_nat (be_bytes k (n div 256)) + unat (of_nat n :: byte)"
    by (simp add: be_nat_def)
  also have "\<dots> = 256 * ((n div 256) mod 256 ^ k) + n mod 256"
    by (simp add: Suc unat_of_nat)
  also have "\<dots> = n mod 256 ^ Suc k"
    by (simp add: mod_mult2_eq add.commute)
  finally show ?case .
qed

lemma be_nat_word: "n < 2 ^ 256 \<Longrightarrow> be_nat (be_bytes 32 n) = n"
proof -
  assume "n < 2 ^ 256"
  moreover have "(256::nat) ^ 32 = 2 ^ 256" by simp
  ultimately show ?thesis by (simp only: be_nat_be_bytes mod_less)
qed

lemma py_int16_hex_pair:
  "py_int16 [hex_digit (unat b div 16), hex_digit (unat b mod 16)] = Some (uint (b :: byte))"
  using py_int16_bytes_hex [of "[b]"] by (simp add: bytes_hex_def hex_byte_def be_nat_def)

lemma char_of_uint: "char_of (uint (d :: byte)) = char_of (unat d)"
  using char_of_nat [of "unat d", where ?'a = int] by simp

lemma uint_pos_iff: "(0 < uint (d :: byte)) = (d \<noteq> 0)"
  by (simp add: order_less_le uint_0_iff)

lemma coin_loop_bytes_hex:
  "coin_loop (bytes_hex ds) acc
   = Some (acc @ map (\<lambda>b. char_of (unat b)) (filter (\<lambda>b. b \<noteq> 0) ds))"
  by (induction ds arbitrary: acc)
     (simp_all add: bytes_hex_Nil bytes_hex_Cons py_int16_hex_pair char_of_uint uint_pos_iff)



lemma string_slice_bytes_hex:
  "py_slice (''0x'' @ bytes_hex bs) (2 + int k * 64) (2 + int k * 64 + int n * 2)
   = bytes_hex (take n (drop (32 * k) bs))"
proof -
  have "py_slice (''0x'' @ bytes_hex bs) (2 + int k * 64) (2 + int k * 64 + int n * 2)
        = take (2 * n) (drop (2 + 64 * k) (''0x'' @ bytes_hex bs))"
    by (subst py_slice_nonneg) (simp_all add: nat_add_distrib nat_mult_distrib mult.commute)
  also have "\<dots> = take (2 * n) (drop (2 * (32 * k)) (bytes_hex bs))"
    by simp
  also have "\<dots> = bytes_hex (take n (drop (32 * k) bs))"
    by (simp only: drop_bytes_hex take_bytes_hex)
  finally show ?thesis .
qed

lemma parse_well_formed:
  assumes "length symbol < 2 ^ 256" "mt < 2 ^ 256" "sd < 2 ^ 256" "ml < 2 ^ 256" "oi < 2 ^ 256"
  shows "parse_perp_asset_info (bytes_hex (perp_asset_info_response symbol mt sd ml oi padding)) idx
         = Some \<lparr>index = idx,
                 coin = map (\<lambda>b. char_of (unat b)) (filter (\<lambda>b. b \<noteq> 0) symbol),
                 margin_table_id = int mt, sz_decimals = int sd, max_leverage = int ml,
                 only_isolated = (oi \<noteq> 0)\<rparr>"
proof -
  define R where "R = perp_asset_info_response symbol mt sd ml oi padding"
  define H where "H = ''0x'' @ bytes_hex R"
  have R: "R = be_bytes 32 0x20 @ be_bytes 32 0xa0 @ be_bytes 32 mt @ be_bytes 32 sd
             @ be_bytes 32 ml @ be_bytes 32 oi @ be_bytes 32 (length symbol) @ symbol @ padding"
    by (simp add: R_def perp_asset_info_response_def)
  have len: "224 \<le> length R"
    by (simp add: R length_be_bytes)
  have ne: "R \<noteq> []"
    using len by auto
  have w0: "take 32 R = be_bytes 32 0x20"
    and w1: "take 32 (drop 32 R) = be_bytes 32 0xa0"
    and w2: "take 32 (drop 64 R) = be_bytes 32 mt"
    and w3: "take 32 (drop 96 R) = be_bytes 32 sd"
    and w4: "take 32 (drop 128 R) = be_bytes 32 ml"
    and w5: "take 32 (drop 160 R) = be_bytes 32 oi"
    and w6: "take 32 (drop 192 R) = be_bytes 32 (length symbol)"
    and w7: "take (length symbol) (drop 224 R) = symbol"
    by (simp_all add: R length_be_bytes)
  have r0: "read_uint H 0 = Some 32"
    using read_uint_bytes_hex [of R 0] ne by (simp add: H_def w0 be_nat_word)
  have r1: "read_uint H 1 = Some 160"
    using read_uint_bytes_hex [of R 1] len by (simp add: H_def w1 be_nat_word)
  have r2: "read_uint H 2 = Some (int mt)"
    using read_uint_bytes_hex [of R 2] len assms by (simp add: H_def w2 be_nat_word)
  have r3: "read_uint H 3 = Some (int sd)"
    using read_uint_bytes_hex [of R 3] len assms by (simp add: H_def w3 be_nat_word)
  have r4: "read_uint H 4 = Some (int ml)"
    using read_uint_bytes_hex [of R 4] len assms by (simp add: H_def w4 be_nat_word)
  have r5: "read_uint H 5 = Some (int oi)"
    using read_uint_bytes_hex [of R 5] len assms by (simp add: H_def w5 be_nat_word)
  have r6: "read_uint H 6 = Some (int (length symbol))"
    using read_uint_bytes_hex [of R 6] len assms by (simp add: H_def w6 be_nat_word)
  have sl: "py_slice H 450 (450 + int (length symbol) * 2) = bytes_hex symbol"
    using string_slice_bytes_hex [of R 7 "length symbol"] by (simp add: H_def w7)
  have H: "(if take 2 (bytes_hex R) \<noteq> ''0x'' then ''0x'' @ bytes_hex R else bytes_hex R) = H"
    by (simp add: H_def take_2_bytes_hex)
  show ?thesis
    unfolding parse_perp_asset_info_def R_def [symmetric] H Let_def
    by (simp add: r0 r1 r2 r3 r4 r5 r6 sl coin_loop_bytes_hex)
qed


lemma btc_chars: "map (\<lambda>b. char_of (unat b)) (filter (\<lambda>b. b \<noteq> 0) [0x42, 0x54, 0x43 :: byte]) = ''BTC''"
  by (simp add: char_of_def bit_Suc_0_iff)

lemma be_nat_zeros: "be_nat (replicate k 0) = 0"
  by (induction k) (simp_all add: be_nat_def)

text \<open>
  C6. For a well-formed perpAssetInfo response, \<open>_parse_perp_asset_info\<close> returns a
  record whose coin is built from the string's bytes, one character per byte, with the
  bytes equal to 0 left out; when the string's bytes are those of \<open>BTC\<close>, the coin is
  \<open>BTC\<close>. The four static fields are the values of their words.
\<close>

theorem parse_perp_asset_info_coin:
  assumes "length symbol < 2 ^ 256" "mt < 2 ^ 256" "sd < 2 ^ 256" "ml < 2 ^ 256" "oi < 2 ^ 256"
  shows "parse_perp_asset_info
           (bytes_hex (perp_asset_info_response symbol mt sd ml oi padding)) idx
         = Some \<lparr>index = idx,
                 coin = map (\<lambda>b. char_of (unat b)) (filter (\<lambda>b. b \<noteq> 0) symbol),
                 margin_table_id = int mt, sz_decimals = int sd, max_leverage = int ml,
                 only_isolated = (oi \<noteq> 0)\<rparr>
         \<and> (symbol = [0x42, 0x54, 0x43] \<longrightarrow>
              map (\<lambda>b. char_of (unat b)) (filter (\<lambda>b. b \<noteq> 0) symbol) = ''BTC'')"
  using parse_well_formed [OF assms] btc_chars by simp

theorem parse_perp_asset_info_coin_witness:
  "parse_perp_asset_info
     (bytes_hex (perp_asset_info_response [0x42, 0x54, 0x43] 0 5 50 0 (replicate 29 0))) 0
   = Some \<lparr>index = 0, coin = ''BTC'', margin_table_id = 0, sz_decimals = 5, max_leverage = 50,
           only_isolated = False\<rparr>
   \<and> parse_perp_asset_info
       (bytes_hex (perp_asset_info_response [0x42, 0x00, 0x54, 0x43, 0x00] 1 2 3 1 (replicate 27 0))) 7
     = Some \<lparr>index = 7, coin = ''BTC'', margin_table_id = 1, sz_decimals = 2, max_leverage = 3,
             only_isolated = True\<rparr>"
  using parse_perp_asset_info_coin [of "[0x42, 0x54, 0x43]" 0 5 50 0 "replicate 29 0" 0]
    parse_perp_asset_info_coin [of "[0x42, 0x00, 0x54, 0x43, 0x00]" 1 2 3 1 "replicate 27 0" 7]
  by (simp add: char_of_def bit_Suc_0_iff)

text \<open>
  C5 at a response cut in the middle of the string's length word (208 of the 256 bytes
  of a well-formed response for \<open>BTC\<close>): the slice of the cut word is shorter but not
  empty, \<open>int(_, 16)\<close> reads it as 0, and a record with an empty coin is returned, not
  \<open>None\<close>.
\<close>

theorem parse_perp_asset_info_truncated:
  "parse_perp_asset_info
     (bytes_hex (take 208 (perp_asset_info_response [0x42, 0x54, 0x43] 0 5 50 0 (replicate 29 0)))) 0
   = Some \<lparr>index = 0, coin = [], margin_table_id = 0, sz_decimals = 5, max_leverage = 50,
           only_isolated = False\<rparr>"
proof -
  define R where "R = take 208 (perp_asset_info_response [0x42, 0x54, 0x43] 0 5 50 0 (replicate 29 0))"
  define H where "H = ''0x'' @ bytes_hex R"
  have R: "R = be_bytes 32 0x20 @ be_bytes 32 0xa0 @ be_bytes 32 0 @ be_bytes 32 5
             @ be_bytes 32 50 @ be_bytes 32 0 @ replicate 16 0"
    by (simp add: R_def perp_asset_info_response_def length_be_bytes be_bytes_32_small)
  have len: "length R = 208"
    by (simp add: R length_be_bytes)
  have ne: "R \<noteq> []"
    using len by auto
  have w0: "take 32 R = be_bytes 32 0x20"
    and w1: "take 32 (drop 32 R) = be_bytes 32 0xa0"
    and w2: "take 32 (drop 64 R) = be_bytes 32 0"
    and w3: "take 32 (drop 96 R) = be_bytes 32 5"
    and w4: "take 32 (drop 128 R) = be_bytes 32 50"
    and w5: "take 32 (drop 160 R) = be_bytes 32 0"
    and w6: "take 32 (drop 192 R) = replicate 16 0"
    by (simp_all add: R length_be_bytes)
  have r0: "read_uint H 0 = Some 32"
    using read_uint_bytes_hex [of R 0] ne by (simp add: H_def w0 be_nat_word)
  have r1: "read_uint H 1 = Some 160"
    using read_uint_bytes_hex [of R 1] len by (simp add: H_def w1 be_nat_word)
  have r2: "read_uint H 2 = Some 0"
    using read_uint_bytes_hex [of R 2] len by (simp add: H_def w2 be_nat_word)
  have r3: "read_uint H 3 = Some 5"
    using read_uint_bytes_hex [of R 3] len by (simp add: H_def w3 be_nat_word)
  have r4: "read_uint H 4 = Some 50"
    using read_uint_bytes_hex [of R 4] len by (simp add: H_def w4 be_nat_word)
  have r5: "read_uint H 5 = Some 0"
    using read_uint_bytes_hex [of R 5] len by (simp add: H_def w5 be_nat_word)
  have r6: "read_uint H 6 = Some 0"
    using read_uint_bytes_hex [of R 6] len by (simp add: H_def w6 be_nat_zeros)
  have sl: "py_slice H 450 450 = []"
    by (simp add: py_slice_def Let_def)
  have H: "(if take 2 (bytes_hex R) \<noteq> ''0x'' then ''0x'' @ bytes_hex R else bytes_hex R) = H"
    by (simp add: H_def take_2_bytes_hex)
  show ?thesis
    unfolding parse_perp_asset_info_def R_def [symmetric] H Let_def
    by (simp add: r0 r1 r2 r3 r4 r5 r6 sl)
qed


section \<open>Facts about the chunks of the index range and the batches\<close>

lemma py_range_unit:
  "set (py_range i stop 1) = {i..<stop} \<and> distinct (py_range i stop 1)
   \<and> length (py_range i stop 1) = nat (stop - i)"
proof (induction "nat (stop - i)" arbitrary: i)
  case 0
  then show ?case by (subst (1 2 3) py_range_pos_step) simp_all
next
  case (Suc n)
  then have lt: "i < stop" and "n = nat (stop - (i + 1))" by simp_all
  then have IH: "set (py_range (i + 1) stop 1) = {i + 1..<stop}"
    "distinct (py_range (i + 1) stop 1)"
    "length (py_range (i + 1) stop 1) = nat (stop - (i + 1))"
    using Suc(1) [of "i + 1"] by simp_all
  have unfold: "py_range i stop 1 = i # py_range (i + 1) stop 1"
    using lt by (subst py_range_pos_step) simp_all
  have "{i..<stop} = insert i {i + 1..<stop}"
    using lt by auto
  then show ?case
    using IH lt by (simp add: unfold)
qed

lemma py_range_as_upt: "py_range (int a) (int b) 1 = map int [a..<b]"
proof (induction "b - a" arbitrary: a)
  case 0
  then show ?case by (subst py_range_pos_step) simp_all
next
  case (Suc n)
  then have ab: "a < b" and "n = b - Suc a" by simp_all
  then have IH: "py_range (int (Suc a)) (int b) 1 = map int [Suc a..<b]"
    using Suc(1) by blast
  have "py_range (int a) (int b) 1 = int a # py_range (int a + 1) (int b) 1"
    using ab by (subst py_range_pos_step) simp_all
  also have "int a + 1 = int (Suc a)"
    by simp
  finally have "py_range (int a) (int b) 1 = int a # map int [Suc a..<b]"
    unfolding IH .
  then show ?case
    using ab by (simp add: upt_conv_Cons)
qed

lemma chunk_list_two:
  assumes "0 < k" "k < n" "n \<le> 2 * k"
  shows "chunk_list (py_range 0 (int n) 1) (int k)
         = Inr [py_range 0 (int k) 1, py_range (int k) (int n) 1]"
proof -
  have all: "py_range 0 (int n) 1 = map int [0..<n]"
    using py_range_as_upt [of 0 n] by simp
  have starts: "py_range 0 (int n) (int k) = [0, int k]"
    using assms by (simp add: py_range_pos_step)
  have c1: "py_slice (map int [0..<n]) 0 (int k) = py_range 0 (int k) 1"
    using assms py_range_as_upt [of 0 k] by (subst py_slice_nonneg) (simp_all add: take_map)
  have c2: "py_slice (map int [0..<n]) (int k) (2 * int k) = py_range (int k) (int n) 1"
    using assms py_range_as_upt [of k n] by (subst py_slice_nonneg) (simp_all add: drop_map)
  show ?thesis
    using assms by (simp add: chunk_list_def all starts c1 c2 del: upt_0)
qed

lemma chunks_225_200:
  "chunk_list (py_range 0 225 1) 200 = Inr [py_range 0 200 1, py_range 200 225 1]"
  using chunk_list_two [of 200 225] by simp

lemma precompile_position_address:
  "to_checksum_address PRECOMPILES_position = Inr (replicate 18 0 @ [0x08, 0x00])"
  by (simp add: PRECOMPILES_position_def to_checksum_address_def is_hex_digit_def digit_val_def
      is_space_def replicate_num)

lemma position_call_request:
  "0 \<le> idx \<Longrightarrow> idx < 65536 \<Longrightarrow> position_call ua idx = Inr (position_request ua idx)"
  by (simp add: position_call_def position_request_def encode_def encode_uint_def encode_call_def
      precompile_position_address)

lemma map_raise_ok: "(\<And>x. x \<in> set xs \<Longrightarrow> f x = Inr (g x)) \<Longrightarrow> map_raise f xs = Inr (map g xs)"
  by (induction xs) simp_all

lemma position_calls_request:
  "set idxs \<subseteq> {0..<225} \<Longrightarrow>
   map_raise (position_call ua) idxs = Inr (map (position_request ua) idxs)"
  by (rule map_raise_ok) (auto simp: position_call_request)

lemma batch_get_positions_ok:
  assumes "to_checksum_address user = Inr ua" "set idxs \<subseteq> {0..<225}"
    and "mc (map (position_request ua) idxs) w = (Inr rs, w')"
  shows "batch_get_positions mc user idxs (w, log)
         = (Inr (List.map_filter (position_of idxs) (enumerate 0 rs)),
            (w', log @ [map (position_request ua) idxs]))"
  using assms by (simp add: batch_get_positions_def position_calls_request aggregate3_def)

lemma position_of_Some:
  "position_of idxs (i, s, rd) = Some p \<Longrightarrow> s \<and> i < length idxs \<and> perp_index p = idxs ! i"
  by (auto simp: position_of_def split: if_splits option.splits)

lemma in_map_filter_enumerate:
  "p \<in> set (List.map_filter f (enumerate 0 rs)) \<Longrightarrow> \<exists>i < length rs. f (i, rs ! i) = Some p"
proof -
  assume "p \<in> set (List.map_filter f (enumerate 0 rs))"
  then obtain x where x: "x \<in> set (enumerate 0 rs)" "f x = Some p"
    by (auto simp: map_filter_def)
  obtain i r where ir: "x = (i, r)"
    by (cases x)
  have "i < length rs" "rs ! i = r"
    using x(1) by (simp_all add: in_set_enumerate_eq ir)
  then show ?thesis
    using x(2) ir by auto
qed


lemma length_map_filter_le: "length (List.map_filter f xs) \<le> length xs"
  by (simp add: map_filter_def)

lemma batch_indices:
  "p \<in> set (List.map_filter (position_of idxs) (enumerate 0 rs)) \<Longrightarrow> perp_index p \<in> set idxs"
proof -
  assume "p \<in> set (List.map_filter (position_of idxs) (enumerate 0 rs))"
  from in_map_filter_enumerate [OF this]
  obtain i where i: "i < length rs" "position_of idxs (i, rs ! i) = Some p"
    by auto
  obtain s rd where r: "rs ! i = (s, rd)"
    by (cases "rs ! i")
  have "position_of idxs (i, s, rd) = Some p"
    using i(2) unfolding r .
  then have "s \<and> i < length idxs \<and> perp_index p = idxs ! i"
    by (rule position_of_Some)
  then show ?thesis
    by simp
qed

lemma batch_failure_omitted:
  assumes "distinct idxs" "length rs = length idxs" "j < length rs" "\<not> fst (rs ! j)"
    and "p \<in> set (List.map_filter (position_of idxs) (enumerate 0 rs))"
  shows "perp_index p \<noteq> idxs ! j"
proof
  assume eq: "perp_index p = idxs ! j"
  from in_map_filter_enumerate [OF assms(5)]
  obtain i where i: "i < length rs" "position_of idxs (i, rs ! i) = Some p"
    by auto
  obtain s rd where r: "rs ! i = (s, rd)"
    by (cases "rs ! i")
  have "position_of idxs (i, s, rd) = Some p"
    using i(2) unfolding r .
  then have "s \<and> i < length idxs \<and> perp_index p = idxs ! i"
    by (rule position_of_Some)
  then have s: "s" and pi: "perp_index p = idxs ! i"
    by simp_all
  have "i = j"
    using assms(1,2,3) i(1) eq pi by (simp add: nth_eq_iff_index_eq)
  then show False
    using s r assms(4) by simp
qed

lemma get_all_positions_run:
  assumes "to_checksum_address user = Inr ua"
    and "mc (map (position_request ua) (py_range 0 200 1)) w = (Inr r1, w1)"
    and "mc (map (position_request ua) (py_range 200 225 1)) w1 = (Inr r2, w2)"
  shows "get_all_positions mc user (w, [])
         = (Inr (List.map_filter (position_of (py_range 0 200 1)) (enumerate 0 r1)
                 @ List.map_filter (position_of (py_range 200 225 1)) (enumerate 0 r2)),
            (w2, [map (position_request ua) (py_range 0 200 1),
                  map (position_request ua) (py_range 200 225 1)]))"
proof -
  have s1: "set (py_range 0 200 1) \<subseteq> {0..<225}" and s2: "set (py_range 200 225 1) \<subseteq> {0..<225}"
    using py_range_unit [of 0 200] py_range_unit [of 200 225] by auto
  have b1: "batch_get_positions mc user (py_range 0 200 1) (w, [])
            = (Inr (List.map_filter (position_of (py_range 0 200 1)) (enumerate 0 r1)),
               (w1, [] @ [map (position_request ua) (py_range 0 200 1)]))"
    using assms(1) s1 assms(2) by (rule batch_get_positions_ok)
  have b2: "batch_get_positions mc user (py_range 200 225 1)
              (w1, [map (position_request ua) (py_range 0 200 1)])
            = (Inr (List.map_filter (position_of (py_range 200 225 1)) (enumerate 0 r2)),
               (w2, [map (position_request ua) (py_range 0 200 1)]
                    @ [map (position_request ua) (py_range 200 225 1)]))"
    using assms(1) s2 assms(3) by (rule batch_get_positions_ok)
  show ?thesis
    using b1 b2 by (simp add: get_all_positions_def chunks_225_200)
qed

lemma positions_bounds:
  assumes "length r1 = 200" "length r2 = 25"
  defines "ps \<equiv> List.map_filter (position_of (py_range 0 200 1)) (enumerate 0 r1)
                 @ List.map_filter (position_of (py_range 200 225 1)) (enumerate 0 r2)"
  shows "length ps \<le> 225"
    and "perp_index ` set ps \<subseteq> {0..<225}"
    and "(\<exists>r \<in> set (r1 @ r2). \<not> fst r) \<Longrightarrow> perp_index ` set ps \<subset> {0..<225}"
proof -
  let ?c1 = "py_range 0 200 1" and ?c2 = "py_range 200 225 1"
  let ?o1 = "List.map_filter (position_of ?c1) (enumerate 0 r1)"
  let ?o2 = "List.map_filter (position_of ?c2) (enumerate 0 r2)"
  have c1: "set ?c1 = {0..<200}" "distinct ?c1" "length ?c1 = 200"
    using py_range_unit [of 0 200] by simp_all
  have c2: "set ?c2 = {200..<225}" "distinct ?c2" "length ?c2 = 25"
    using py_range_unit [of 200 225] by simp_all
  have "length ?o1 \<le> 200" "length ?o2 \<le> 25"
    using length_map_filter_le [of "position_of ?c1" "enumerate 0 r1"]
      length_map_filter_le [of "position_of ?c2" "enumerate 0 r2"] assms(1,2) by simp_all
  then show "length ps \<le> 225"
    by (simp add: ps_def)
  have i1: "perp_index ` set ?o1 \<subseteq> {0..<200}"
    using batch_indices [of _ ?c1 r1] c1(1) by blast
  have i2: "perp_index ` set ?o2 \<subseteq> {200..<225}"
    using batch_indices [of _ ?c2 r2] c2(1) by blast
  show sub: "perp_index ` set ps \<subseteq> {0..<225}"
    using i1 i2 by (auto simp: ps_def)
  assume "\<exists>r \<in> set (r1 @ r2). \<not> fst r"
  then consider (a) j where "j < length r1" "\<not> fst (r1 ! j)"
    | (b) j where "j < length r2" "\<not> fst (r2 ! j)"
    by (auto simp: in_set_conv_nth)
  then have "\<exists>x \<in> {0..<225}. x \<notin> perp_index ` set ps"
  proof cases
    case a
    have x: "?c1 ! j \<in> {0..<200}"
      using a(1) assms(1) c1(1,3) nth_mem [of j ?c1] by simp
    have "?c1 ! j \<notin> perp_index ` set ?o1"
    proof
      assume "?c1 ! j \<in> perp_index ` set ?o1"
      then obtain p where p: "p \<in> set ?o1" "perp_index p = ?c1 ! j"
        by auto
      have "length r1 = length ?c1"
        using assms(1) c1(3) by simp
      from batch_failure_omitted [OF c1(2) this a(1) a(2) p(1)] p(2) show False
        by simp
    qed
    moreover have "?c1 ! j \<notin> perp_index ` set ?o2"
      using i2 x by auto
    ultimately show ?thesis
      using x by (auto simp: ps_def)
  next
    case b
    have x: "?c2 ! j \<in> {200..<225}"
      using b(1) assms(2) c2(1,3) nth_mem [of j ?c2] by simp
    have "?c2 ! j \<notin> perp_index ` set ?o2"
    proof
      assume "?c2 ! j \<in> perp_index ` set ?o2"
      then obtain p where p: "p \<in> set ?o2" "perp_index p = ?c2 ! j"
        by auto
      have "length r2 = length ?c2"
        using assms(2) c2(3) by simp
      from batch_failure_omitted [OF c2(2) this b(1) b(2) p(1)] p(2) show False
        by simp
    qed
    moreover have "?c2 ! j \<notin> perp_index ` set ?o1"
      using i1 x by auto
    ultimately show ?thesis
      using x by (auto simp: ps_def)
  qed
  then show "perp_index ` set ps \<subset> {0..<225}"
    using sub by blast
qed


lemma precompile_markPx_address:
  "to_checksum_address PRECOMPILES_markPx = Inr (replicate 18 0 @ [0x08, 0x06])"
  by (simp add: PRECOMPILES_markPx_def to_checksum_address_def is_hex_digit_def digit_val_def
      is_space_def replicate_num)

lemma mark_price_call_request:
  "0 \<le> idx \<Longrightarrow> idx < 4294967296 \<Longrightarrow> mark_price_call idx = Inr (mark_price_request idx)"
  by (simp add: mark_price_call_def mark_price_request_def encode_def encode_uint_def
      encode_call_def precompile_markPx_address)

lemma mark_price_calls_request:
  "set idxs \<subseteq> {0..<225} \<Longrightarrow> map_raise mark_price_call idxs = Inr (map mark_price_request idxs)"
  by (rule map_raise_ok) (auto simp: mark_price_call_request)

lemma batch_get_mark_prices_ok:
  assumes "set idxs \<subseteq> {0..<225}"
    and "mc (map mark_price_request idxs) w = (Inr rs, w')"
  shows "batch_get_mark_prices mc idxs (w, log)
         = (prices_loop idxs (enumerate 0 rs) Map.empty, (w', log @ [map mark_price_request idxs]))"
  using assms by (simp add: batch_get_mark_prices_def mark_price_calls_request aggregate3_def)

lemma prices_loop_dom:
  "prices_loop idxs xs m = Inr m' \<Longrightarrow> k \<in> dom m' \<Longrightarrow>
   k \<in> dom m \<or> (\<exists>i s rd. (i, s, rd) \<in> set xs \<and> s \<and> i < length idxs \<and> k = idxs ! i)"
proof (induction idxs xs m rule: prices_loop.induct)
  case (1 perp_indices prices)
  then show ?case by simp
next
  case (2 perp_indices i success return_data rest prices)
  show ?case
  proof (cases "success \<and> 0 < length return_data")
    case False
    then have "prices_loop perp_indices rest prices = Inr m'"
      using 2(3) by auto
    then have "k \<in> dom prices \<or> (\<exists>i s rd. (i, s, rd) \<in> set rest \<and> s \<and> i < length perp_indices \<and> k = perp_indices ! i)"
      using 2(2) [OF False _ 2(4)] by simp
    then show ?thesis by auto
  next
    case True
    then obtain price where price: "decode_uint 64 (word_at return_data 0) = Some price"
      and i: "i < length perp_indices"
      and rest: "prices_loop perp_indices rest (prices(perp_indices ! i \<mapsto> price)) = Inr m'"
      using 2(3) by (auto split: option.splits if_splits)
    have "k \<in> dom (prices(perp_indices ! i \<mapsto> price))
          \<or> (\<exists>i s rd. (i, s, rd) \<in> set rest \<and> s \<and> i < length perp_indices \<and> k = perp_indices ! i)"
      using 2(1) [OF True price i rest 2(4)] .
    then show ?thesis
      using True i by auto
  qed
qed

lemma prices_batch_dom:
  assumes "prices_loop idxs (enumerate 0 rs) Map.empty = Inr m" "k \<in> dom m"
  shows "\<exists>i < length rs. fst (rs ! i) \<and> i < length idxs \<and> k = idxs ! i"
proof -
  from prices_loop_dom [OF assms]
  obtain i s rd where x: "(i, s, rd) \<in> set (enumerate 0 rs)" "s" "i < length idxs" "k = idxs ! i"
    by auto
  have "i < length rs" "rs ! i = (s, rd)"
    using x(1) by (simp_all add: in_set_enumerate_eq)
  then show ?thesis
    using x by auto
qed

lemma prices_failure_omitted:
  assumes "distinct idxs" "length rs = length idxs" "j < length rs" "\<not> fst (rs ! j)"
    and "prices_loop idxs (enumerate 0 rs) Map.empty = Inr m"
  shows "idxs ! j \<notin> dom m"
proof
  assume "idxs ! j \<in> dom m"
  from prices_batch_dom [OF assms(5) this]
  obtain i where i: "i < length rs" "fst (rs ! i)" "idxs ! j = idxs ! i"
    by auto
  have "i = j"
    using assms(1,2,3) i(1,3) by (simp add: nth_eq_iff_index_eq)
  then show False
    using i(2) assms(4) by simp
qed

lemma get_all_mark_prices_run:
  assumes "mc (map mark_price_request (py_range 0 200 1)) w = (Inr r1, w1)"
    and "mc (map mark_price_request (py_range 200 225 1)) w1 = (Inr r2, w2)"
    and "get_all_mark_prices mc (w, []) = (Inr prices, st)"
  shows "\<exists>p1 p2. prices_loop (py_range 0 200 1) (enumerate 0 r1) Map.empty = Inr p1
           \<and> prices_loop (py_range 200 225 1) (enumerate 0 r2) Map.empty = Inr p2
           \<and> prices = p1 ++ p2
           \<and> st = (w2, [map mark_price_request (py_range 0 200 1),
                         map mark_price_request (py_range 200 225 1)])"
proof -
  have s1: "set (py_range 0 200 1) \<subseteq> {0..<225}" and s2: "set (py_range 200 225 1) \<subseteq> {0..<225}"
    using py_range_unit [of 0 200] py_range_unit [of 200 225] by auto
  have b1: "batch_get_mark_prices mc (py_range 0 200 1) (w, [])
            = (prices_loop (py_range 0 200 1) (enumerate 0 r1) Map.empty,
               (w1, [] @ [map mark_price_request (py_range 0 200 1)]))"
    using s1 assms(1) by (rule batch_get_mark_prices_ok)
  have b2: "batch_get_mark_prices mc (py_range 200 225 1)
              (w1, [map mark_price_request (py_range 0 200 1)])
            = (prices_loop (py_range 200 225 1) (enumerate 0 r2) Map.empty,
               (w2, [map mark_price_request (py_range 0 200 1)]
                    @ [map mark_price_request (py_range 200 225 1)]))"
    using s2 assms(2) by (rule batch_get_mark_prices_ok)
  show ?thesis
    using assms(3) b1 b2
    by (auto simp add: get_all_mark_prices_def chunks_225_200 split: sum.splits)
qed

lemma mark_prices_bounds:
  assumes "length r1 = 200" "length r2 = 25"
    and "prices_loop (py_range 0 200 1) (enumerate 0 r1) Map.empty = Inr p1"
    and "prices_loop (py_range 200 225 1) (enumerate 0 r2) Map.empty = Inr p2"
  shows "dom (p1 ++ p2) \<subseteq> {0..<225}"
    and "card (dom (p1 ++ p2)) \<le> 225"
    and "(\<exists>r \<in> set (r1 @ r2). \<not> fst r) \<Longrightarrow> dom (p1 ++ p2) \<subset> {0..<225}"
proof -
  let ?c1 = "py_range 0 200 1" and ?c2 = "py_range 200 225 1"
  have c1: "set ?c1 = {0..<200}" "distinct ?c1" "length ?c1 = 200"
    using py_range_unit [of 0 200] by simp_all
  have c2: "set ?c2 = {200..<225}" "distinct ?c2" "length ?c2 = 25"
    using py_range_unit [of 200 225] by simp_all
  have i1: "dom p1 \<subseteq> {0..<200}"
  proof
    fix k assume "k \<in> dom p1"
    from prices_batch_dom [OF assms(3) this] obtain i where "i < length ?c1" "k = ?c1 ! i"
      by auto
    then show "k \<in> {0..<200}"
      using nth_mem [of i ?c1] c1(1) by simp
  qed
  have i2: "dom p2 \<subseteq> {200..<225}"
  proof
    fix k assume "k \<in> dom p2"
    from prices_batch_dom [OF assms(4) this] obtain i where "i < length ?c2" "k = ?c2 ! i"
      by auto
    then show "k \<in> {200..<225}"
      using nth_mem [of i ?c2] c2(1) by simp
  qed
  show sub: "dom (p1 ++ p2) \<subseteq> {0..<225}"
    using i1 i2 by auto
  have "card (dom (p1 ++ p2)) \<le> card {0..<225::int}"
    using sub by (intro card_mono) simp_all
  then show "card (dom (p1 ++ p2)) \<le> 225"
    by simp
  assume "\<exists>r \<in> set (r1 @ r2). \<not> fst r"
  then consider (a) j where "j < length r1" "\<not> fst (r1 ! j)"
    | (b) j where "j < length r2" "\<not> fst (r2 ! j)"
    by (auto simp: in_set_conv_nth)
  then have "\<exists>x \<in> {0..<225}. x \<notin> dom (p1 ++ p2)"
  proof cases
    case a
    have x: "?c1 ! j \<in> {0..<200}"
      using a(1) assms(1) c1(1,3) nth_mem [of j ?c1] by simp
    have "length r1 = length ?c1"
      using assms(1) c1(3) by simp
    from prices_failure_omitted [OF c1(2) this a(1) a(2) assms(3)]
    have "?c1 ! j \<notin> dom p1" .
    moreover have "?c1 ! j \<notin> dom p2"
      using i2 x by auto
    ultimately show ?thesis
      using x by auto
  next
    case b
    have x: "?c2 ! j \<in> {200..<225}"
      using b(1) assms(2) c2(1,3) nth_mem [of j ?c2] by simp
    have "length r2 = length ?c2"
      using assms(2) c2(3) by simp
    from prices_failure_omitted [OF c2(2) this b(1) b(2) assms(4)]
    have "?c2 ! j \<notin> dom p2" .
    moreover have "?c2 ! j \<notin> dom p1"
      using i1 x by auto
    ultimately show ?thesis
      using x by auto
  qed
  then show "dom (p1 ++ p2) \<subset> {0..<225}"
    using sub by (auto simp: psubset_eq)
qed


lemma get_all_mark_prices_eval:
  assumes "mc (map mark_price_request (py_range 0 200 1)) w = (Inr r1, w1)"
    and "mc (map mark_price_request (py_range 200 225 1)) w1 = (Inr r2, w2)"
    and "prices_loop (py_range 0 200 1) (enumerate 0 r1) Map.empty = Inr p1"
    and "prices_loop (py_range 200 225 1) (enumerate 0 r2) Map.empty = Inr p2"
  shows "get_all_mark_prices mc (w, [])
         = (Inr (p1 ++ p2), (w2, [map mark_price_request (py_range 0 200 1),
                                  map mark_price_request (py_range 200 225 1)]))"
proof -
  have s1: "set (py_range 0 200 1) \<subseteq> {0..<225}" and s2: "set (py_range 200 225 1) \<subseteq> {0..<225}"
    using py_range_unit [of 0 200] py_range_unit [of 200 225] by auto
  have b1: "batch_get_mark_prices mc (py_range 0 200 1) (w, [])
            = (Inr p1, (w1, [] @ [map mark_price_request (py_range 0 200 1)]))"
    using batch_get_mark_prices_ok [of "py_range 0 200 1" mc w r1 w1 "[]"] s1 assms(1,3) by simp
  have b2: "batch_get_mark_prices mc (py_range 200 225 1)
              (w1, [map mark_price_request (py_range 0 200 1)])
            = (Inr p2, (w2, [map mark_price_request (py_range 0 200 1)]
                    @ [map mark_price_request (py_range 200 225 1)]))"
    using batch_get_mark_prices_ok [of "py_range 200 225 1" mc w1 r2 w2
        "[map mark_price_request (py_range 0 200 1)]"] s2 assms(2,4) by simp
  show ?thesis
    using b1 b2 by (simp add: get_all_mark_prices_def chunks_225_200)
qed

lemma prices_loop_all_failed:
  "\<forall>x \<in> set xs. \<not> fst (snd x) \<Longrightarrow> prices_loop idxs xs m = Inr m"
  by (induction idxs xs m rule: prices_loop.induct) auto

lemma enumerate_all_failed:
  assumes "\<forall>r \<in> set rs. \<not> fst r"
  shows "\<forall>x \<in> set (enumerate n rs). \<not> fst (snd x)"
proof
  fix x assume "x \<in> set (enumerate n rs)"
  then have "fst x - n < length rs" "rs ! (fst x - n) = snd x"
    by (auto simp: in_set_enumerate_eq)
  then have "snd x \<in> set rs"
    using nth_mem [of "fst x - n" rs] by simp
  then show "\<not> fst (snd x)"
    using assms by blast
qed

text \<open>
  What holds of the two aggregators on a contract that answers both batches with one
  result per request: \<open>get_all_positions\<close> has issued exactly two batches, the first of
  200 requests and the second of 25; it returns at most 225 positions, whose indices lie
  in 0..224, and they are a strict subset of the 225 indices when some result has
  \<open>success = False\<close>. The keys of the dictionary of \<open>get_all_mark_prices\<close> satisfy the same
  bounds in the runs where it returns.
\<close>

lemma two_batches_of_225:
  "chunk_list (py_range 0 225 1) 200 = Inr [py_range 0 200 1, py_range 200 225 1]
   \<and> length (py_range 0 200 1) = 200 \<and> length (py_range 200 225 1) = 25
   \<and> (to_checksum_address user = Inr ua
        \<and> mc (map (position_request ua) (py_range 0 200 1)) w = (Inr r1, w1)
        \<and> mc (map (position_request ua) (py_range 200 225 1)) w1 = (Inr r2, w2)
        \<and> length r1 = 200 \<and> length r2 = 25
       \<longrightarrow> (\<exists>ps. get_all_positions mc user (w, [])
                    = (Inr ps, (w2, [map (position_request ua) (py_range 0 200 1),
                                     map (position_request ua) (py_range 200 225 1)]))
                \<and> length ps \<le> 225
                \<and> perp_index ` set ps \<subseteq> {0..<225}
                \<and> ((\<exists>r \<in> set (r1 @ r2). \<not> fst r) \<longrightarrow> perp_index ` set ps \<subset> {0..<225})))
   \<and> (mc' (map mark_price_request (py_range 0 200 1)) v = (Inr q1, v1)
        \<and> mc' (map mark_price_request (py_range 200 225 1)) v1 = (Inr q2, v2)
        \<and> length q1 = 200 \<and> length q2 = 25
        \<and> get_all_mark_prices mc' (v, []) = (Inr prices, st)
       \<longrightarrow> st = (v2, [map mark_price_request (py_range 0 200 1),
                       map mark_price_request (py_range 200 225 1)])
           \<and> dom prices \<subseteq> {0..<225}
           \<and> card (dom prices) \<le> 225
           \<and> ((\<exists>r \<in> set (q1 @ q2). \<not> fst r) \<longrightarrow> dom prices \<subset> {0..<225}))"
proof (intro conjI impI)
  show "chunk_list (py_range 0 225 1) 200 = Inr [py_range 0 200 1, py_range 200 225 1]"
    by (rule chunks_225_200)
  show "length (py_range 0 200 1) = 200" "length (py_range 200 225 1) = 25"
    using py_range_unit [of 0 200] py_range_unit [of 200 225] by simp_all
next
  assume h: "to_checksum_address user = Inr ua
        \<and> mc (map (position_request ua) (py_range 0 200 1)) w = (Inr r1, w1)
        \<and> mc (map (position_request ua) (py_range 200 225 1)) w1 = (Inr r2, w2)
        \<and> length r1 = 200 \<and> length r2 = 25"
  let ?ps = "List.map_filter (position_of (py_range 0 200 1)) (enumerate 0 r1)
             @ List.map_filter (position_of (py_range 200 225 1)) (enumerate 0 r2)"
  have run: "get_all_positions mc user (w, [])
             = (Inr ?ps, (w2, [map (position_request ua) (py_range 0 200 1),
                               map (position_request ua) (py_range 200 225 1)]))"
    using h get_all_positions_run [of user ua mc w r1 w1 r2 w2] by blast
  have len: "length r1 = 200" "length r2 = 25"
    using h by simp_all
  have "length ?ps \<le> 225" "perp_index ` set ?ps \<subseteq> {0..<225}"
    "(\<exists>r \<in> set (r1 @ r2). \<not> fst r) \<longrightarrow> perp_index ` set ?ps \<subset> {0..<225}"
    using positions_bounds [OF len] by blast+
  then show "\<exists>ps. get_all_positions mc user (w, [])
                    = (Inr ps, (w2, [map (position_request ua) (py_range 0 200 1),
                                     map (position_request ua) (py_range 200 225 1)]))
                \<and> length ps \<le> 225
                \<and> perp_index ` set ps \<subseteq> {0..<225}
                \<and> ((\<exists>r \<in> set (r1 @ r2). \<not> fst r) \<longrightarrow> perp_index ` set ps \<subset> {0..<225})"
    using run by blast
next
  assume h: "mc' (map mark_price_request (py_range 0 200 1)) v = (Inr q1, v1)
        \<and> mc' (map mark_price_request (py_range 200 225 1)) v1 = (Inr q2, v2)
        \<and> length q1 = 200 \<and> length q2 = 25
        \<and> get_all_mark_prices mc' (v, []) = (Inr prices, st)"
  then obtain p1 p2 where p:
    "prices_loop (py_range 0 200 1) (enumerate 0 q1) Map.empty = Inr p1"
    "prices_loop (py_range 200 225 1) (enumerate 0 q2) Map.empty = Inr p2"
    "prices = p1 ++ p2"
    "st = (v2, [map mark_price_request (py_range 0 200 1),
                map mark_price_request (py_range 200 225 1)])"
    using get_all_mark_prices_run [of mc' v q1 v1 q2 v2 prices st] by blast
  have len: "length q1 = 200" "length q2 = 25"
    using h by simp_all
  show "st = (v2, [map mark_price_request (py_range 0 200 1),
                   map mark_price_request (py_range 200 225 1)])"
    by (rule p(4))
  show "dom prices \<subseteq> {0..<225}" "card (dom prices) \<le> 225"
    unfolding p(3) using mark_prices_bounds(1,2) [OF len p(1) p(2)] by blast+
  assume "\<exists>r \<in> set (q1 @ q2). \<not> fst r"
  then show "dom prices \<subset> {0..<225}"
    unfolding p(3) by (rule mark_prices_bounds(3) [OF len p(1) p(2)])
qed


lemma two_batches_of_225_all_failed:
  "to_checksum_address ''0x3333333333333333333333333333333333333333'' = Inr (replicate 20 0x33)
   \<and> (\<exists>ps. get_all_positions (\<lambda>calls (w :: unit). (Inr (map (\<lambda>c. (False, [])) calls), w))
               ''0x3333333333333333333333333333333333333333'' ((), [])
             = (Inr ps, ((), [map (position_request (replicate 20 0x33)) (py_range 0 200 1),
                              map (position_request (replicate 20 0x33)) (py_range 200 225 1)]))
           \<and> length ps \<le> 225 \<and> perp_index ` set ps \<subset> {0..<225})
   \<and> (\<exists>prices. get_all_mark_prices (\<lambda>calls (w :: unit). (Inr (map (\<lambda>c. (False, [])) calls), w))
                   ((), [])
                 = (Inr prices, ((), [map mark_price_request (py_range 0 200 1),
                                      map mark_price_request (py_range 200 225 1)]))
               \<and> card (dom prices) \<le> 225 \<and> dom prices \<subset> {0..<225})"
proof -
  let ?U = "''0x3333333333333333333333333333333333333333''"
  let ?A = "replicate 20 (0x33 :: byte)"
  define M :: "unit multicall"
    where "M = (\<lambda>calls w. (Inr (map (\<lambda>c. (False, [])) calls), w))"
  let ?c1 = "py_range 0 200 1" and ?c2 = "py_range 200 225 1"
  define r1 :: "result3 list" where "r1 = map (\<lambda>c. (False, [])) (map (position_request ?A) ?c1)"
  define r2 :: "result3 list" where "r2 = map (\<lambda>c. (False, [])) (map (position_request ?A) ?c2)"
  define q1 :: "result3 list" where "q1 = map (\<lambda>c. (False, [])) (map mark_price_request ?c1)"
  define q2 :: "result3 list" where "q2 = map (\<lambda>c. (False, [])) (map mark_price_request ?c2)"
  have l: "length ?c1 = 200" "length ?c2 = 25"
    using py_range_unit [of 0 200] py_range_unit [of 200 225] by simp_all
  have len: "length r1 = 200" "length r2 = 25" "length q1 = 200" "length q2 = 25"
    by (simp_all add: r1_def r2_def q1_def q2_def l)
  have all_failed: "\<forall>r \<in> set r1. \<not> fst r" "\<forall>r \<in> set q1. \<not> fst r" "\<forall>r \<in> set q2. \<not> fst r"
    by (auto simp: r1_def q1_def q2_def)
  have "r1 \<noteq> []" "q1 \<noteq> []"
    using len by auto
  then have some_failed: "\<exists>r \<in> set (r1 @ r2). \<not> fst r" "\<exists>r \<in> set (q1 @ q2). \<not> fst r"
    using all_failed by (auto simp: neq_Nil_conv)
  have t: "M (map (position_request ?A) ?c1) () = (Inr r1, ())"
    "M (map (position_request ?A) ?c2) () = (Inr r2, ())"
    "M (map mark_price_request ?c1) () = (Inr q1, ())"
    "M (map mark_price_request ?c2) () = (Inr q2, ())"
    by (simp_all add: r1_def r2_def q1_def q2_def M_def)
  have p: "prices_loop ?c1 (enumerate 0 q1) Map.empty = Inr Map.empty"
    "prices_loop ?c2 (enumerate 0 q2) Map.empty = Inr Map.empty"
    using all_failed(2,3) by (simp_all add: prices_loop_all_failed enumerate_all_failed)
  have run: "get_all_mark_prices M ((), [])
             = (Inr (Map.empty ++ Map.empty), ((), [map mark_price_request ?c1, map mark_price_request ?c2]))"
    by (rule get_all_mark_prices_eval [of M "()" q1 "()" q2 "()", OF t(3) t(4) p])
  note T = two_batches_of_225 [where user = ?U and ua = ?A and mc = M and w = "()"
      and ?r1.0 = r1 and ?w1.0 = "()" and ?r2.0 = r2 and ?w2.0 = "()" and mc' = M and v = "()"
      and ?q1.0 = q1 and ?v1.0 = "()" and ?q2.0 = q2 and ?v2.0 = "()"
      and prices = "Map.empty ++ Map.empty"
      and st = "((), [map mark_price_request ?c1, map mark_price_request ?c2])"]
  have pos: "\<exists>ps. get_all_positions M ?U ((), [])
              = (Inr ps, ((), [map (position_request ?A) ?c1, map (position_request ?A) ?c2]))
            \<and> length ps \<le> 225 \<and> perp_index ` set ps \<subset> {0..<225}"
    using T checksum_example t(1,2) len(1,2) some_failed(1) by blast
  have pr: "card (dom (Map.empty ++ Map.empty :: int \<rightharpoonup> int)) \<le> 225
            \<and> dom (Map.empty ++ Map.empty :: int \<rightharpoonup> int) \<subset> {0..<225}"
    using T t(3,4) len(3,4) run some_failed(2) by blast
  have "to_checksum_address ?U = Inr ?A
      \<and> (\<exists>ps. get_all_positions M ?U ((), [])
                = (Inr ps, ((), [map (position_request ?A) ?c1, map (position_request ?A) ?c2]))
              \<and> length ps \<le> 225 \<and> perp_index ` set ps \<subset> {0..<225})
      \<and> (\<exists>prices. get_all_mark_prices M ((), [])
                = (Inr prices, ((), [map mark_price_request ?c1, map mark_price_request ?c2]))
              \<and> card (dom prices) \<le> 225 \<and> dom prices \<subset> {0..<225})"
    using checksum_example pos pr run by blast
  then show ?thesis
    unfolding M_def .
qed

section \<open>Facts about payloads that do not decode\<close>

lemma snd_enumerate_mem: "x \<in> set (enumerate n rs) \<Longrightarrow> snd x \<in> set rs"
proof -
  assume "x \<in> set (enumerate n rs)"
  then have "fst x - n < length rs" "rs ! (fst x - n) = snd x"
    by (auto simp: in_set_enumerate_eq)
  then show ?thesis
    using nth_mem [of "fst x - n" rs] by simp
qed

lemma map_filter_all_None: "(\<And>x. x \<in> set xs \<Longrightarrow> f x = None) \<Longrightarrow> List.map_filter f xs = []"
  by (induction xs) (simp_all add: map_filter_simps)

lemma position_of_short: "length (snd (snd x)) < 32 \<Longrightarrow> position_of c x = None"
  by (cases x) (auto simp: position_of_def)

lemma positions_all_short:
  assumes "\<And>r. r \<in> set rs \<Longrightarrow> length (snd r) < 32"
  shows "List.map_filter (position_of c) (enumerate n rs) = []"
proof (rule map_filter_all_None)
  fix x assume "x \<in> set (enumerate n rs)"
  then have "snd x \<in> set rs"
    by (rule snd_enumerate_mem)
  then have "length (snd (snd x)) < 32"
    by (rule assms)
  then show "position_of c x = None"
    by (rule position_of_short)
qed

lemma prices_loop_undecodable:
  "prices_loop idxs ((i, True, [1]) # rest) m = Inl DecodingError"
  by (simp add: decode_uint_def word_at_def)

text \<open>
  C7. The claim fails for \<open>get_all_mark_prices\<close>. On a contract that answers every
  request of a batch with \<open>success = True\<close> and the one-byte payload \<open>01\<close> (one result per
  request), \<^verbatim>\<open>decode(["uint64"], return_data)\<close> raises inside \<open>batch_get_mark_prices\<close>, whose
  loop has no \<open>try\<close>: \<open>get_all_mark_prices\<close> raises after the first batch of 200 requests,
  the second batch of 25 is never issued and no merged dictionary is returned. On the
  same contract \<open>get_all_positions\<close>, whose loop decodes inside \<open>try\<close>, issues both batches
  and returns the empty list.
\<close>

theorem get_all_mark_prices_undecodable:
  "get_all_mark_prices (\<lambda>calls (w :: unit). (Inr (map (\<lambda>c. (True, [0x01])) calls), w)) ((), [])
   = (Inl DecodingError, ((), [map mark_price_request (py_range 0 200 1)]))
   \<and> get_all_positions (\<lambda>calls (w :: unit). (Inr (map (\<lambda>c. (True, [0x01])) calls), w))
       ''0x3333333333333333333333333333333333333333'' ((), [])
     = (Inr [], ((), [map (position_request (replicate 20 0x33)) (py_range 0 200 1),
                      map (position_request (replicate 20 0x33)) (py_range 200 225 1)]))"
proof -
  let ?U = "''0x3333333333333333333333333333333333333333''"
  let ?A = "replicate 20 (0x33 :: byte)"
  let ?c1 = "py_range 0 200 1" and ?c2 = "py_range 200 225 1"
  define M :: "unit multicall"
    where "M = (\<lambda>calls w. (Inr (map (\<lambda>c. (True, [0x01])) calls), w))"
  define q1 :: "result3 list" where "q1 = map (\<lambda>c. (True, [0x01])) (map mark_price_request ?c1)"
  define r1 :: "result3 list" where "r1 = map (\<lambda>c. (True, [0x01])) (map (position_request ?A) ?c1)"
  define r2 :: "result3 list" where "r2 = map (\<lambda>c. (True, [0x01])) (map (position_request ?A) ?c2)"
  have c1: "?c1 = 0 # py_range 1 200 1"
    by (subst py_range_pos_step) simp_all
  have s1: "set ?c1 \<subseteq> {0..<225}"
    using py_range_unit [of 0 200] by auto
  have t: "M (map mark_price_request ?c1) () = (Inr q1, ())"
    "M (map (position_request ?A) ?c1) () = (Inr r1, ())"
    "M (map (position_request ?A) ?c2) () = (Inr r2, ())"
    by (simp_all add: q1_def r1_def r2_def M_def)
  have "q1 = (True, [1]) # map (\<lambda>c. (True, [0x01])) (map mark_price_request (py_range 1 200 1))"
    unfolding q1_def by (subst c1) simp
  then have "enumerate 0 q1
             = (0, True, [1])
               # enumerate 1 (map (\<lambda>c. (True, [0x01])) (map mark_price_request (py_range 1 200 1)))"
    by simp
  then have loop: "prices_loop ?c1 (enumerate 0 q1) Map.empty = Inl DecodingError"
    by (simp only: prices_loop_undecodable)
  have b1: "batch_get_mark_prices M ?c1 ((), [])
            = (Inl DecodingError, ((), [] @ [map mark_price_request ?c1]))"
    using batch_get_mark_prices_ok [of ?c1 M "()" q1 "()" "[]"] s1 t(1) loop by simp
  have prices: "get_all_mark_prices M ((), [])
                = (Inl DecodingError, ((), [map mark_price_request ?c1]))"
    using b1 by (simp add: get_all_mark_prices_def chunks_225_200)
  have short: "List.map_filter (position_of ?c1) (enumerate 0 r1) = []"
    "List.map_filter (position_of ?c2) (enumerate 0 r2) = []"
    by (rule positions_all_short, auto simp: r1_def r2_def)+
  have positions: "get_all_positions M ?U ((), [])
                   = (Inr [], ((), [map (position_request ?A) ?c1, map (position_request ?A) ?c2]))"
    using get_all_positions_run [of ?U ?A M "()" r1 "()" r2 "()", OF checksum_example t(2) t(3)]
    by (simp only: short append_Nil)
  show ?thesis
    using prices positions unfolding M_def by (rule conjI)
qed

section \<open>Facts about the decoder and the batches of spot balances\<close>

lemma precompile_spotBalance_address:
  "to_checksum_address PRECOMPILES_spotBalance = Inr (replicate 18 0 @ [0x08, 0x01])"
  by (simp add: PRECOMPILES_spotBalance_def to_checksum_address_def is_hex_digit_def
      digit_val_def is_space_def replicate_num)

lemma spot_balance_call_request:
  "0 \<le> idx \<Longrightarrow> idx < 2 ^ 64 \<Longrightarrow>
   spot_balance_call ua idx = Inr (spot_balance_request ua idx)"
  by (simp add: spot_balance_call_def spot_balance_request_def encode_def encode_uint_def
      encode_call_def precompile_spotBalance_address)

lemma spot_balance_calls_request:
  "set idxs \<subseteq> {0..<2 ^ 64} \<Longrightarrow>
   map_raise (spot_balance_call ua) idxs = Inr (map (spot_balance_request ua) idxs)"
  by (rule map_raise_ok) (auto simp: spot_balance_call_request)

lemma batch_get_spot_balances_ok:
  assumes "to_checksum_address user = Inr ua" "set idxs \<subseteq> {0..<2 ^ 64}"
    and "mc (map (spot_balance_request ua) idxs) w = (Inr rs, w')"
  shows "batch_get_spot_balances mc user idxs (w, log)
         = (Inr (List.map_filter (balance_of idxs) (enumerate 0 rs)),
            (w', log @ [map (spot_balance_request ua) idxs]))"
  using assms
  by (simp add: batch_get_spot_balances_def spot_balance_calls_request aggregate3_def)

lemma be_nat_append: "be_nat (xs @ ys) = be_nat xs * 256 ^ length ys + be_nat ys"
proof (induction ys rule: rev_induct)
  case Nil
  then show ?case by (simp add: be_nat_def)
next
  case (snoc y ys)
  have "be_nat (xs @ ys @ [y]) = 256 * be_nat (xs @ ys) + unat y"
    by (simp add: be_nat_def)
  also have "\<dots> = be_nat xs * 256 ^ length (ys @ [y]) + (256 * be_nat ys + unat y)"
    by (simp add: snoc algebra_simps)
  also have "256 * be_nat ys + unat y = be_nat (ys @ [y])"
    by (simp add: be_nat_def)
  finally show ?case .
qed

lemma be_nat_bound: "be_nat bs < 256 ^ length bs"
proof (induction bs rule: rev_induct)
  case Nil
  then show ?case by (simp add: be_nat_def)
next
  case (snoc b bs)
  have "unat b < 256"
    using unsigned_less [of b] by simp
  moreover have "be_nat (bs @ [b]) = 256 * be_nat bs + unat b"
    by (simp add: be_nat_def)
  moreover have "256 * be_nat bs + 256 \<le> 256 * 256 ^ length bs"
  proof -
    have "Suc (be_nat bs) \<le> 256 ^ length bs"
      using snoc by simp
    then have "256 * Suc (be_nat bs) \<le> 256 * 256 ^ length bs"
      by (rule mult_le_mono2)
    then show ?thesis by simp
  qed
  ultimately show ?case by simp
qed

lemma decode_uint_64_Some:
  "decode_uint 64 w = Some v \<Longrightarrow> length w = 32 \<and> is_uint 64 v"
proof -
  assume a: "decode_uint 64 w = Some v"
  then have len: "length w = 32" and v: "v = int (be_nat (drop 24 w))"
    by (auto simp: decode_uint_def Let_def split: if_splits)
  have "be_nat (drop 24 w) < 256 ^ length (drop 24 w)"
    by (rule be_nat_bound)
  then have "be_nat (drop 24 w) < 256 ^ 8"
    using len by simp
  moreover have "(256::nat) ^ 8 = 2 ^ 64" by simp
  ultimately have "int (be_nat (drop 24 w)) < 2 ^ 64"
    by (metis of_nat_less_iff of_nat_numeral of_nat_power)
  then show ?thesis
    using len v by (simp add: is_uint_def)
qed

lemma decode_spot_balance_Some:
  assumes "decode_spot_balance rd = Some (t, h, e)"
  shows "96 \<le> length rd \<and> is_uint 64 t \<and> is_uint 64 h \<and> is_uint 64 e"
proof -
  from assms have d: "decode_uint 64 (word_at rd 0) = Some t"
    "decode_uint 64 (word_at rd 1) = Some h" "decode_uint 64 (word_at rd 2) = Some e"
    by (auto simp: decode_spot_balance_def split: option.splits)
  have "length (word_at rd 2) = 32"
    using decode_uint_64_Some [OF d(3)] by simp
  then have "96 \<le> length rd"
    by (simp add: word_at_def)
  then show ?thesis
    using decode_uint_64_Some [OF d(1)] decode_uint_64_Some [OF d(2)]
      decode_uint_64_Some [OF d(3)] by simp
qed

lemma decode_spot_balance_short: "length rd < 96 \<Longrightarrow> decode_spot_balance rd = None"
proof (rule ccontr)
  assume short: "length rd < 96" and "decode_spot_balance rd \<noteq> None"
  then obtain t h e where "decode_spot_balance rd = Some (t, h, e)"
    by (cases "decode_spot_balance rd") auto
  then have "96 \<le> length rd"
    using decode_spot_balance_Some by blast
  then show False using short by simp
qed

lemma balance_of_Some:
  "balance_of idxs (i, s, rd) = Some b \<Longrightarrow>
   s \<and> i < length idxs \<and> token_index b = idxs ! i
   \<and> decode_spot_balance rd = Some (total b, hold b, SpotBalance.entry_ntl b)"
  by (auto simp: balance_of_def split: if_splits option.splits)

lemma in_map_filter: "x \<in> set xs \<Longrightarrow> f x = Some y \<Longrightarrow> y \<in> set (List.map_filter f xs)"
  by (force simp: map_filter_def)

lemma be_bytes_split: "be_bytes (k + m) n = be_bytes k (n div 256 ^ m) @ be_bytes m n"
proof (induction m arbitrary: n)
  case 0
  then show ?case by simp
next
  case (Suc m)
  have "n div 256 div 256 ^ m = n div 256 ^ Suc m"
    by (simp add: div_mult2_eq)
  then show ?case
    using Suc [of "n div 256"] by simp
qed

lemma be_bytes_32_low:
  assumes "n < 256 ^ m" "m \<le> 32"
  shows "be_bytes 32 n = replicate (32 - m) 0 @ be_bytes m n"
proof -
  have "be_bytes ((32 - m) + m) n = be_bytes (32 - m) (n div 256 ^ m) @ be_bytes m n"
    by (rule be_bytes_split)
  moreover have "(32 - m) + m = 32"
    using assms(2) by simp
  moreover have "n div 256 ^ m = 0"
    using assms(1) by simp
  ultimately show ?thesis
    by (simp add: be_bytes_zero)
qed

lemma be_nat_low: "n < 256 ^ m \<Longrightarrow> be_nat (be_bytes m n) = n"
  by (simp add: be_nat_be_bytes)

lemma decode_uint_64_word:
  assumes "n < 2 ^ 64"
  shows "decode_uint 64 (be_bytes 32 n) = Some (int n)"
proof -
  have "(256::nat) ^ 8 = 2 ^ 64" by simp
  then have n: "n < 256 ^ 8"
    using assms by (simp only:)
  have w: "be_bytes 32 n = replicate 24 0 @ be_bytes 8 n"
    using be_bytes_32_low [OF n] by simp
  have "be_nat (be_bytes 8 n) = n"
    using n by (rule be_nat_low)
  then show ?thesis
    by (simp add: decode_uint_def w length_be_bytes)
qed

lemma decode_spot_balance_words:
  assumes "is_uint 64 t" "is_uint 64 h" "is_uint 64 e"
  shows "decode_spot_balance (be_bytes 32 (nat t) @ be_bytes 32 (nat h) @ be_bytes 32 (nat e) @ extra)
         = Some (t, h, e)"
proof -
  let ?d = "be_bytes 32 (nat t) @ be_bytes 32 (nat h) @ be_bytes 32 (nat e) @ extra"
  have w: "word_at ?d 0 = be_bytes 32 (nat t)" "word_at ?d 1 = be_bytes 32 (nat h)"
    "word_at ?d 2 = be_bytes 32 (nat e)"
    by (simp_all add: word_at_def length_be_bytes)
  have n: "nat t < 2 ^ 64" "nat h < 2 ^ 64" "nat e < 2 ^ 64"
    using assms by (simp_all add: is_uint_def nat_less_iff)
  have "decode_uint 64 (word_at ?d 0) = Some t" "decode_uint 64 (word_at ?d 1) = Some h"
    "decode_uint 64 (word_at ?d 2) = Some e"
    unfolding w using n assms by (simp_all add: decode_uint_64_word is_uint_def)
  then show ?thesis
    by (simp add: decode_spot_balance_def)
qed

lemma batch_balance_present:
  assumes "i < length rs" "length rs = length idxs" "rs ! i = (True, rd)"
    and "decode_spot_balance rd = Some (t, h, e)"
  shows "\<lparr>token_index = idxs ! i, total = t, hold = h, entry_ntl = e\<rparr>
         \<in> set (List.map_filter (balance_of idxs) (enumerate 0 rs))"
proof -
  have "96 \<le> length rd"
    using decode_spot_balance_Some [OF assms(4)] by simp
  then have "balance_of idxs (i, True, rd)
             = Some \<lparr>token_index = idxs ! i, total = t, hold = h, entry_ntl = e\<rparr>"
    using assms(1,2,4) by (simp add: balance_of_def)
  moreover have "(i, True, rd) \<in> set (enumerate 0 rs)"
    using assms(1,3) by (simp add: in_set_enumerate_eq)
  ultimately show ?thesis
    by (rule in_map_filter [rotated])
qed

lemma batch_balance_absent:
  assumes "distinct idxs" "length rs = length idxs" "i < length rs" "rs ! i = (True, rd)"
    and "decode_spot_balance rd = None"
    and "b \<in> set (List.map_filter (balance_of idxs) (enumerate 0 rs))"
  shows "token_index b \<noteq> idxs ! i"
proof
  assume eq: "token_index b = idxs ! i"
  from assms(6) obtain x where x: "x \<in> set (enumerate 0 rs)" "balance_of idxs x = Some b"
    by (auto simp: map_filter_def)
  obtain j s rd' where xe: "x = (j, s, rd')"
    by (cases x) auto
  have j: "j < length rs" "rs ! j = (s, rd')"
    using x(1) unfolding xe by (simp_all add: in_set_enumerate_eq)
  have b: "j < length idxs" "token_index b = idxs ! j"
    "decode_spot_balance rd' = Some (total b, hold b, SpotBalance.entry_ntl b)"
    using balance_of_Some [OF x(2) [unfolded xe]] by simp_all
  have "j = i"
    using assms(1,2,3) b(1,2) eq by (simp add: nth_eq_iff_index_eq)
  then have "rd' = rd"
    using j(2) assms(4) by simp
  then show False
    using b(3) assms(5) by simp
qed

text \<open>
  C8 (amended). Let the token indices be distinct and fit 64 bits, and let the contract
  answer the batch with one result per request. Then \<open>batch_get_spot_balances\<close> returns,
  and for every successful element whose payload decodes as the ABI tuple
  \<open>(uint64, uint64, uint64)\<close> the output holds the record of that index, with \<open>total\<close>,
  \<open>hold\<close> and \<open>entry_ntl\<close> the three decoded values, each an unsigned 64-bit integer; such
  a payload has at least 96 bytes, and every payload that starts with the three 32-byte
  words of three unsigned 64-bit values decodes to them. A successful element whose
  payload is shorter than 96 bytes does not decode and leaves no record for its index.
\<close>

theorem batch_get_spot_balances_decoded:
  assumes "to_checksum_address user = Inr ua"
    and "set idxs \<subseteq> {0..<2 ^ 64}" and "distinct idxs"
    and "mc (map (spot_balance_request ua) idxs) w = (Inr rs, w')"
    and "length rs = length idxs"
  shows "\<exists>out. batch_get_spot_balances mc user idxs (w, log)
                 = (Inr out, (w', log @ [map (spot_balance_request ua) idxs]))
           \<and> (\<forall>i rd t h e. i < length rs \<and> rs ! i = (True, rd)
                  \<and> decode_spot_balance rd = Some (t, h, e)
                \<longrightarrow> 96 \<le> length rd \<and> is_uint 64 t \<and> is_uint 64 h \<and> is_uint 64 e
                    \<and> \<lparr>token_index = idxs ! i, total = t, hold = h, entry_ntl = e\<rparr> \<in> set out)
           \<and> (\<forall>i rd. i < length rs \<and> rs ! i = (True, rd) \<and> length rd < 96
                \<longrightarrow> decode_spot_balance rd = None
                    \<and> (\<forall>b \<in> set out. token_index b \<noteq> idxs ! i))
           \<and> (\<forall>t h e extra. is_uint 64 t \<and> is_uint 64 h \<and> is_uint 64 e
                \<longrightarrow> decode_spot_balance
                      (be_bytes 32 (nat t) @ be_bytes 32 (nat h) @ be_bytes 32 (nat e) @ extra)
                    = Some (t, h, e))"
proof -
  let ?out = "List.map_filter (balance_of idxs) (enumerate 0 rs)"
  have run: "batch_get_spot_balances mc user idxs (w, log)
             = (Inr ?out, (w', log @ [map (spot_balance_request ua) idxs]))"
    using assms(1,2,4) by (rule batch_get_spot_balances_ok)
  have present: "96 \<le> length rd \<and> is_uint 64 t \<and> is_uint 64 h \<and> is_uint 64 e
        \<and> \<lparr>token_index = idxs ! i, total = t, hold = h, entry_ntl = e\<rparr> \<in> set ?out"
    if "i < length rs \<and> rs ! i = (True, rd) \<and> decode_spot_balance rd = Some (t, h, e)"
    for i rd t h e
    using that decode_spot_balance_Some [of rd t h e]
      batch_balance_present [of i rs idxs rd t h e] assms(5) by simp
  have absent: "decode_spot_balance rd = None \<and> (\<forall>b \<in> set ?out. token_index b \<noteq> idxs ! i)"
    if h: "i < length rs \<and> rs ! i = (True, rd) \<and> length rd < 96" for i rd
  proof -
    have d: "decode_spot_balance rd = None"
      using h by (simp add: decode_spot_balance_short)
    have "token_index b \<noteq> idxs ! i" if "b \<in> set ?out" for b
      using batch_balance_absent [OF assms(3) assms(5) _ _ d that, of i] h by simp
    then show ?thesis
      using d by simp
  qed
  have words: "decode_spot_balance
                 (be_bytes 32 (nat t) @ be_bytes 32 (nat h) @ be_bytes 32 (nat e) @ extra)
               = Some (t, h, e)"
    if "is_uint 64 t \<and> is_uint 64 h \<and> is_uint 64 e" for t h e extra
    using that by (simp add: decode_spot_balance_words)
  show ?thesis
    using run present absent words by blast
qed

theorem batch_get_spot_balances_decoded_witness:
  "to_checksum_address ''0x3333333333333333333333333333333333333333'' = Inr (replicate 20 0x33)
   \<and> distinct [7, 9 :: int]
   \<and> (\<exists>out. batch_get_spot_balances
               (\<lambda>calls (w :: unit).
                  (Inr [(True, be_bytes 32 5 @ be_bytes 32 100 @ be_bytes 32 0 @ []),
                        (True, replicate 24 0)], w))
               ''0x3333333333333333333333333333333333333333'' [7, 9] ((), [])
             = (Inr out, ((), [[spot_balance_request (replicate 20 0x33) 7,
                                spot_balance_request (replicate 20 0x33) 9]]))
           \<and> \<lparr>token_index = 7, total = 5, hold = 100, entry_ntl = 0\<rparr> \<in> set out
           \<and> \<not> (\<exists>b \<in> set out. token_index b = 9))"
proof -
  let ?U = "''0x3333333333333333333333333333333333333333''"
  let ?A = "replicate 20 (0x33 :: byte)"
  let ?P = "be_bytes 32 (nat 5) @ be_bytes 32 (nat 100) @ be_bytes 32 (nat 0) @ []"
  define rs :: "result3 list" where "rs = [(True, ?P), (True, replicate 24 0)]"
  define M :: "unit multicall" where "M = (\<lambda>calls w. (Inr rs, w))"
  have tr: "M (map (spot_balance_request ?A) [7, 9]) () = (Inr rs, ())"
    by (simp add: M_def)
  have len: "length rs = length [7, 9 :: int]"
    by (simp add: rs_def)
  have idx: "set [7, 9 :: int] \<subseteq> {0..<2 ^ 64}" "distinct [7, 9 :: int]"
    by simp_all
  note T = batch_get_spot_balances_decoded [of ?U ?A "[7, 9]" M "()" rs "()" "[]",
      OF checksum_example idx tr len]
  from T obtain out where o:
    "batch_get_spot_balances M ?U [7, 9] ((), [])
       = (Inr out, ((), [] @ [map (spot_balance_request ?A) [7, 9]]))
     \<and> (\<forall>i rd t h e. i < length rs \<and> rs ! i = (True, rd)
            \<and> decode_spot_balance rd = Some (t, h, e)
          \<longrightarrow> 96 \<le> length rd \<and> is_uint 64 t \<and> is_uint 64 h \<and> is_uint 64 e
              \<and> \<lparr>token_index = [7, 9] ! i, total = t, hold = h, entry_ntl = e\<rparr> \<in> set out)
     \<and> (\<forall>i rd. i < length rs \<and> rs ! i = (True, rd) \<and> length rd < 96
          \<longrightarrow> decode_spot_balance rd = None
              \<and> (\<forall>b \<in> set out. token_index b \<noteq> [7, 9] ! i))
     \<and> (\<forall>t h e extra. is_uint 64 t \<and> is_uint 64 h \<and> is_uint 64 e
          \<longrightarrow> decode_spot_balance
                (be_bytes 32 (nat t) @ be_bytes 32 (nat h) @ be_bytes 32 (nat e) @ extra)
              = Some (t, h, e))"
    by (rule exE)
  note o1 = o [THEN conjunct1]
    and o2 = o [THEN conjunct2, THEN conjunct1, rule_format]
    and o3 = o [THEN conjunct2, THEN conjunct2, THEN conjunct1, rule_format]
    and o4 = o [THEN conjunct2, THEN conjunct2, THEN conjunct2, rule_format]
  have dec: "decode_spot_balance ?P = Some (5, 100, 0)"
    by (rule o4) (simp add: is_uint_def)
  have "0 < length rs \<and> rs ! 0 = (True, ?P) \<and> decode_spot_balance ?P = Some (5, 100, 0)"
    using dec by (simp add: rs_def)
  from o2 [OF this]
  have a: "\<lparr>token_index = 7, total = 5, hold = 100, entry_ntl = 0\<rparr> \<in> set out"
    by simp
  have "1 < length rs \<and> rs ! 1 = (True, replicate 24 0) \<and> length (replicate 24 (0 :: byte)) < 96"
    by (simp add: rs_def)
  from o3 [OF this]
  have b: "\<forall>b \<in> set out. token_index b \<noteq> 9"
    by simp
  have "(\<exists>out. batch_get_spot_balances M ?U [7, 9] ((), [])
             = (Inr out, ((), [[spot_balance_request ?A 7, spot_balance_request ?A 9]]))
           \<and> \<lparr>token_index = 7, total = 5, hold = 100, entry_ntl = 0\<rparr> \<in> set out
           \<and> \<not> (\<exists>b \<in> set out. token_index b = 9))"
    using o1 a b by auto
  then show ?thesis
    using checksum_example by (simp add: M_def rs_def)
qed

text \<open>
  C8 as stated fails: a successful element with a payload of 24 bytes leaves no record,
  since \<^verbatim>\<open>decode(["uint64", "uint64", "uint64"], return_data)\<close> needs 96 bytes and its
  exception is dropped by \<open>except Exception: pass\<close>.
\<close>

theorem batch_get_spot_balances_24_bytes_counterexample:
  "batch_get_spot_balances (\<lambda>calls (w :: unit). (Inr [(True, replicate 24 0)], w))
     ''0x3333333333333333333333333333333333333333'' [7] ((), [])
   = (Inr [], ((), [[spot_balance_request (replicate 20 0x33) 7]]))
   \<and> 24 \<le> length (replicate 24 (0 :: byte))"
proof -
  have d: "decode_spot_balance (replicate 24 0) = None"
    by (rule decode_spot_balance_short) simp
  have "batch_get_spot_balances (\<lambda>calls (w :: unit). (Inr [(True, replicate 24 0)], w))
          ''0x3333333333333333333333333333333333333333'' [7] ((), [])
        = (Inr (List.map_filter (balance_of [7]) (enumerate 0 [(True, replicate 24 0)])),
           ((), [] @ [map (spot_balance_request (replicate 20 0x33)) [7]]))"
    by (rule batch_get_spot_balances_ok [OF checksum_example]) simp_all
  moreover have "List.map_filter (balance_of [7]) (enumerate 0 [(True, replicate 24 0)]) = []"
    using d by (simp add: map_filter_simps balance_of_def)
  ultimately show ?thesis
    by simp
qed

section \<open>Facts about the runs of the queries over all indices\<close>

lemma decode_uint_32_word:
  assumes "n < 2 ^ 32"
  shows "decode_uint 32 (be_bytes 32 n) = Some (int n)"
proof -
  have "(256::nat) ^ 4 = 2 ^ 32" by simp
  then have n: "n < 256 ^ 4"
    using assms by (simp only:)
  have w: "be_bytes 32 n = replicate 28 0 @ be_bytes 4 n"
    using be_bytes_32_low [OF n] by simp
  have "be_nat (be_bytes 4 n) = n"
    using n by (rule be_nat_low)
  then show ?thesis
    by (simp add: decode_uint_def w length_be_bytes)
qed

lemma decode_int_64_word:
  assumes "n < 2 ^ 63"
  shows "decode_int 64 (be_bytes 32 n) = Some (int n)"
proof -
  have "(256::nat) ^ 8 = 2 ^ 64" by simp
  then have n: "n < 256 ^ 8"
    using assms by simp
  have w: "be_bytes 32 n = replicate 24 0 @ be_bytes 8 n"
    using be_bytes_32_low [OF n] by simp
  have v: "be_nat (be_bytes 8 n) = n"
    using n by (rule be_nat_low)
  have "\<not> (2 :: int) ^ 63 \<le> int n"
    using assms by simp
  then show ?thesis
    by (simp add: decode_int_def w v length_be_bytes)
qed

lemma decode_bool_word:
  "decode_bool (be_bytes 32 0) = Some False" "decode_bool (be_bytes 32 1) = Some True"
  "decode_bool (be_bytes 32 (Suc 0)) = Some True"
  by (simp_all add: decode_bool_def be_bytes_32_small nth_append)

lemma decode_position_words:
  assumes "a < 2 ^ 63" "b < 2 ^ 64" "c < 2 ^ 63" "d < 2 ^ 32"
  shows "decode_position (be_bytes 32 a @ be_bytes 32 b @ be_bytes 32 c @ be_bytes 32 d
                          @ be_bytes 32 0)
         = Some (int a, int b, int c, int d, False)"
    and "decode_position (be_bytes 32 a @ be_bytes 32 b @ be_bytes 32 c @ be_bytes 32 d
                          @ be_bytes 32 1)
         = Some (int a, int b, int c, int d, True)"
proof -
  have w: "word_at (be_bytes 32 a @ be_bytes 32 b @ be_bytes 32 c @ be_bytes 32 d @ z) 0
           = be_bytes 32 a"
    "word_at (be_bytes 32 a @ be_bytes 32 b @ be_bytes 32 c @ be_bytes 32 d @ z) 1
           = be_bytes 32 b"
    "word_at (be_bytes 32 a @ be_bytes 32 b @ be_bytes 32 c @ be_bytes 32 d @ z) 2
           = be_bytes 32 c"
    "word_at (be_bytes 32 a @ be_bytes 32 b @ be_bytes 32 c @ be_bytes 32 d @ z) 3
           = be_bytes 32 d"
    "word_at (be_bytes 32 a @ be_bytes 32 b @ be_bytes 32 c @ be_bytes 32 d @ be_bytes 32 k) 4
           = be_bytes 32 k" for z k
    by (simp_all add: word_at_def length_be_bytes)
  show "decode_position (be_bytes 32 a @ be_bytes 32 b @ be_bytes 32 c @ be_bytes 32 d
                          @ be_bytes 32 0)
         = Some (int a, int b, int c, int d, False)"
    "decode_position (be_bytes 32 a @ be_bytes 32 b @ be_bytes 32 c @ be_bytes 32 d
                          @ be_bytes 32 1)
         = Some (int a, int b, int c, int d, True)"
    unfolding decode_position_def w
    using assms
    by (simp_all add: decode_int_64_word decode_uint_64_word decode_uint_32_word decode_bool_word)
qed

lemma py_range_nth:
  "k < b - a \<Longrightarrow> py_range (int a) (int b) 1 ! k = int (a + k)"
  by (simp add: py_range_as_upt)

lemma positions_failed_tail:
  "List.map_filter (position_of c) (enumerate n (replicate k (False, []))) = []"
  by (rule positions_all_short) auto

lemma balances_failed_tail:
  "List.map_filter (balance_of c) (enumerate n (replicate k (False, []))) = []"
proof (rule map_filter_all_None)
  fix x :: "nat \<times> result3"
  assume "x \<in> set (enumerate n (replicate k (False, [])))"
  then have "snd x \<in> set (replicate k (False, []))"
    by (rule snd_enumerate_mem)
  then have "snd x = (False, [])"
    by simp
  then show "balance_of c x = None"
    by (cases x) (simp add: balance_of_def)
qed

lemma positions_two:
  assumes "2 \<le> length c" "32 \<le> length x" "32 \<le> length y"
    and "decode_position x = Some (a1, b1, c1, d1, e1)"
    and "decode_position y = Some (a2, b2, c2, d2, e2)"
  shows "List.map_filter (position_of c)
           (enumerate 0 ((True, x) # (True, y) # replicate k (False, [])))
         = [\<lparr>perp_index = c ! 0, szi = a1, entry_ntl = b1, isolated_raw_usd = c1,
              leverage = d1, is_isolated = e1\<rparr>,
            \<lparr>perp_index = c ! 1, szi = a2, entry_ntl = b2, isolated_raw_usd = c2,
              leverage = d2, is_isolated = e2\<rparr>]"
proof -
  have "c \<noteq> []" "Suc 0 < length c"
    using assms(1) by auto
  then show ?thesis
    using assms(2-) by (simp add: map_filter_simps position_of_def positions_failed_tail)
qed

lemma balances_two:
  assumes "2 \<le> length c" "24 \<le> length x" "24 \<le> length y"
    and "decode_spot_balance x = Some (a1, b1, c1)"
    and "decode_spot_balance y = Some (a2, b2, c2)"
  shows "List.map_filter (balance_of c)
           (enumerate 0 ((True, x) # (True, y) # replicate k (False, [])))
         = [\<lparr>token_index = c ! 0, total = a1, hold = b1, entry_ntl = c1\<rparr>,
            \<lparr>token_index = c ! 1, total = a2, hold = b2, entry_ntl = c2\<rparr>]"
proof -
  have "c \<noteq> []" "Suc 0 < length c"
    using assms(1) by auto
  then show ?thesis
    using assms(2-) by (simp add: map_filter_simps balance_of_def balances_failed_tail)
qed

lemma chunks_425_300:
  "chunk_list (py_range 0 425 1) 300 = Inr [py_range 0 300 1, py_range 300 425 1]"
  using chunk_list_two [of 300 425] by simp

lemma get_all_spot_balances_run:
  assumes "to_checksum_address user = Inr ua"
    and "mc (map (spot_balance_request ua) (py_range 0 300 1)) w = (Inr r1, w1)"
    and "mc (map (spot_balance_request ua) (py_range 300 425 1)) w1 = (Inr r2, w2)"
  shows "get_all_spot_balances mc user (w, [])
         = (Inr (List.map_filter (balance_of (py_range 0 300 1)) (enumerate 0 r1)
                 @ List.map_filter (balance_of (py_range 300 425 1)) (enumerate 0 r2)),
            (w2, [map (spot_balance_request ua) (py_range 0 300 1),
                  map (spot_balance_request ua) (py_range 300 425 1)]))"
proof -
  have s1: "set (py_range 0 300 1) \<subseteq> {0..<2 ^ 64}"
    and s2: "set (py_range 300 425 1) \<subseteq> {0..<2 ^ 64}"
    using py_range_unit [of 0 300] py_range_unit [of 300 425] by auto
  have b1: "batch_get_spot_balances mc user (py_range 0 300 1) (w, [])
            = (Inr (List.map_filter (balance_of (py_range 0 300 1)) (enumerate 0 r1)),
               (w1, [] @ [map (spot_balance_request ua) (py_range 0 300 1)]))"
    using assms(1) s1 assms(2) by (rule batch_get_spot_balances_ok)
  have b2: "batch_get_spot_balances mc user (py_range 300 425 1)
              (w1, [map (spot_balance_request ua) (py_range 0 300 1)])
            = (Inr (List.map_filter (balance_of (py_range 300 425 1)) (enumerate 0 r2)),
               (w2, [map (spot_balance_request ua) (py_range 0 300 1)]
                    @ [map (spot_balance_request ua) (py_range 300 425 1)]))"
    using assms(1) s2 assms(3) by (rule batch_get_spot_balances_ok)
  show ?thesis
    using b1 b2 by (simp add: get_all_spot_balances_def chunks_425_300)
qed

lemma get_all_positions_transport_failure:
  assumes "to_checksum_address user = Inr ua"
    and "mc (map (position_request ua) (py_range 0 200 1)) w = (Inl e, w1)"
  shows "get_all_positions mc user (w, [])
         = (Inl e, (w1, [map (position_request ua) (py_range 0 200 1)]))"
proof -
  have s1: "set (py_range 0 200 1) \<subseteq> {0..<225}"
    using py_range_unit [of 0 200] by auto
  have "batch_get_positions mc user (py_range 0 200 1) (w, [])
        = (Inl e, (w1, [map (position_request ua) (py_range 0 200 1)]))"
    using assms s1 by (simp add: batch_get_positions_def position_calls_request aggregate3_def)
  then show ?thesis
    by (simp add: get_all_positions_def chunks_225_200)
qed

lemma get_all_spot_balances_transport_failure:
  assumes "to_checksum_address user = Inr ua"
    and "mc (map (spot_balance_request ua) (py_range 0 300 1)) w = (Inl e, w1)"
  shows "get_all_spot_balances mc user (w, [])
         = (Inl e, (w1, [map (spot_balance_request ua) (py_range 0 300 1)]))"
proof -
  have s1: "set (py_range 0 300 1) \<subseteq> {0..<2 ^ 64}"
    using py_range_unit [of 0 300] by auto
  have "batch_get_spot_balances mc user (py_range 0 300 1) (w, [])
        = (Inl e, (w1, [map (spot_balance_request ua) (py_range 0 300 1)]))"
    using assms s1
    by (simp add: batch_get_spot_balances_def spot_balance_calls_request aggregate3_def)
  then show ?thesis
    by (simp add: get_all_spot_balances_def chunks_425_300)
qed

text \<open>
  C9. When \<open>get_all_positions\<close> returns a list, \<open>get_non_zero_positions\<close> returns, after the
  same batches, the elements of that list whose \<open>szi\<close> is not 0, in the same order; when
  \<open>get_all_spot_balances\<close> returns a list, \<open>get_non_zero_balances\<close> returns the elements
  whose \<open>total\<close> is not 0, in the same order. An exception of the query over all indices
  leaves the filtered query unchanged.
\<close>

theorem non_zero_filters:
  "(get_all_positions mc user st = (Inr ps, st')
      \<longrightarrow> get_non_zero_positions mc user st = (Inr (filter (\<lambda>p. szi p \<noteq> 0) ps), st'))
   \<and> (get_all_positions mc user st = (Inl e, st')
      \<longrightarrow> get_non_zero_positions mc user st = (Inl e, st'))
   \<and> (get_all_spot_balances mc user st = (Inr bs, st'')
      \<longrightarrow> get_non_zero_balances mc user st = (Inr (filter (\<lambda>b. total b \<noteq> 0) bs), st''))
   \<and> (get_all_spot_balances mc user st = (Inl e', st'')
      \<longrightarrow> get_non_zero_balances mc user st = (Inl e', st''))"
  by (simp add: get_non_zero_positions_def get_non_zero_balances_def)

theorem non_zero_filters_witness:
  "get_all_positions
     (\<lambda>calls (w :: unit).
        (Inr ((True, be_bytes 32 5 @ be_bytes 32 100 @ be_bytes 32 0 @ be_bytes 32 10 @ be_bytes 32 1)
              # (True, be_bytes 32 0 @ be_bytes 32 0 @ be_bytes 32 0 @ be_bytes 32 1 @ be_bytes 32 0)
              # replicate (length calls - 2) (False, [])), w))
     ''0x3333333333333333333333333333333333333333'' ((), [])
   = (Inr [\<lparr>perp_index = 0, szi = 5, entry_ntl = 100, isolated_raw_usd = 0, leverage = 10,
             is_isolated = True\<rparr>,
           \<lparr>perp_index = 1, szi = 0, entry_ntl = 0, isolated_raw_usd = 0, leverage = 1,
             is_isolated = False\<rparr>,
           \<lparr>perp_index = 200, szi = 5, entry_ntl = 100, isolated_raw_usd = 0, leverage = 10,
             is_isolated = True\<rparr>,
           \<lparr>perp_index = 201, szi = 0, entry_ntl = 0, isolated_raw_usd = 0, leverage = 1,
             is_isolated = False\<rparr>],
      ((), [map (position_request (replicate 20 0x33)) (py_range 0 200 1),
            map (position_request (replicate 20 0x33)) (py_range 200 225 1)]))
   \<and> get_non_zero_positions
     (\<lambda>calls (w :: unit).
        (Inr ((True, be_bytes 32 5 @ be_bytes 32 100 @ be_bytes 32 0 @ be_bytes 32 10 @ be_bytes 32 1)
              # (True, be_bytes 32 0 @ be_bytes 32 0 @ be_bytes 32 0 @ be_bytes 32 1 @ be_bytes 32 0)
              # replicate (length calls - 2) (False, [])), w))
     ''0x3333333333333333333333333333333333333333'' ((), [])
   = (Inr [\<lparr>perp_index = 0, szi = 5, entry_ntl = 100, isolated_raw_usd = 0, leverage = 10,
             is_isolated = True\<rparr>,
           \<lparr>perp_index = 200, szi = 5, entry_ntl = 100, isolated_raw_usd = 0, leverage = 10,
             is_isolated = True\<rparr>],
      ((), [map (position_request (replicate 20 0x33)) (py_range 0 200 1),
            map (position_request (replicate 20 0x33)) (py_range 200 225 1)]))
   \<and> get_all_spot_balances
     (\<lambda>calls (w :: unit).
        (Inr ((True, be_bytes 32 5 @ be_bytes 32 100 @ be_bytes 32 0 @ be_bytes 32 10 @ be_bytes 32 1)
              # (True, be_bytes 32 0 @ be_bytes 32 0 @ be_bytes 32 0 @ be_bytes 32 1 @ be_bytes 32 0)
              # replicate (length calls - 2) (False, [])), w))
     ''0x3333333333333333333333333333333333333333'' ((), [])
   = (Inr [\<lparr>token_index = 0, total = 5, hold = 100, entry_ntl = 0\<rparr>,
           \<lparr>token_index = 1, total = 0, hold = 0, entry_ntl = 0\<rparr>,
           \<lparr>token_index = 300, total = 5, hold = 100, entry_ntl = 0\<rparr>,
           \<lparr>token_index = 301, total = 0, hold = 0, entry_ntl = 0\<rparr>],
      ((), [map (spot_balance_request (replicate 20 0x33)) (py_range 0 300 1),
            map (spot_balance_request (replicate 20 0x33)) (py_range 300 425 1)]))
   \<and> get_non_zero_balances
     (\<lambda>calls (w :: unit).
        (Inr ((True, be_bytes 32 5 @ be_bytes 32 100 @ be_bytes 32 0 @ be_bytes 32 10 @ be_bytes 32 1)
              # (True, be_bytes 32 0 @ be_bytes 32 0 @ be_bytes 32 0 @ be_bytes 32 1 @ be_bytes 32 0)
              # replicate (length calls - 2) (False, [])), w))
     ''0x3333333333333333333333333333333333333333'' ((), [])
   = (Inr [\<lparr>token_index = 0, total = 5, hold = 100, entry_ntl = 0\<rparr>,
           \<lparr>token_index = 300, total = 5, hold = 100, entry_ntl = 0\<rparr>],
      ((), [map (spot_balance_request (replicate 20 0x33)) (py_range 0 300 1),
            map (spot_balance_request (replicate 20 0x33)) (py_range 300 425 1)]))
   \<and> get_all_positions (\<lambda>calls (w :: unit). (Inl TransportFailure, w))
       ''0x3333333333333333333333333333333333333333'' ((), [])
     = (Inl TransportFailure,
        ((), [map (position_request (replicate 20 0x33)) (py_range 0 200 1)]))
   \<and> get_non_zero_positions (\<lambda>calls (w :: unit). (Inl TransportFailure, w))
       ''0x3333333333333333333333333333333333333333'' ((), [])
     = (Inl TransportFailure,
        ((), [map (position_request (replicate 20 0x33)) (py_range 0 200 1)]))
   \<and> get_all_spot_balances (\<lambda>calls (w :: unit). (Inl TransportFailure, w))
       ''0x3333333333333333333333333333333333333333'' ((), [])
     = (Inl TransportFailure,
        ((), [map (spot_balance_request (replicate 20 0x33)) (py_range 0 300 1)]))
   \<and> get_non_zero_balances (\<lambda>calls (w :: unit). (Inl TransportFailure, w))
       ''0x3333333333333333333333333333333333333333'' ((), [])
     = (Inl TransportFailure,
        ((), [map (spot_balance_request (replicate 20 0x33)) (py_range 0 300 1)]))"
proof -
  let ?U = "''0x3333333333333333333333333333333333333333''"
  let ?A = "replicate 20 (0x33 :: byte)"
  let ?P5 = "be_bytes 32 5 @ be_bytes 32 100 @ be_bytes 32 0 @ be_bytes 32 10 @ be_bytes 32 1"
  let ?P0 = "be_bytes 32 0 @ be_bytes 32 0 @ be_bytes 32 0 @ be_bytes 32 1 @ be_bytes 32 0"
  let ?c1 = "py_range 0 200 1" and ?c2 = "py_range 200 225 1"
  let ?d1 = "py_range 0 300 1" and ?d2 = "py_range 300 425 1"
  let ?p0 = "\<lparr>perp_index = 0, szi = 5, entry_ntl = 100, isolated_raw_usd = 0, leverage = 10,
             is_isolated = True\<rparr>"
  let ?p1 = "\<lparr>perp_index = 1, szi = 0, entry_ntl = 0, isolated_raw_usd = 0, leverage = 1,
             is_isolated = False\<rparr>"
  let ?p200 = "\<lparr>perp_index = 200, szi = 5, entry_ntl = 100, isolated_raw_usd = 0, leverage = 10,
             is_isolated = True\<rparr>"
  let ?p201 = "\<lparr>perp_index = 201, szi = 0, entry_ntl = 0, isolated_raw_usd = 0, leverage = 1,
             is_isolated = False\<rparr>"
  let ?b0 = "\<lparr>token_index = 0, total = 5, hold = 100, entry_ntl = 0\<rparr>"
  let ?b1 = "\<lparr>token_index = 1, total = 0, hold = 0, entry_ntl = 0\<rparr>"
  let ?b300 = "\<lparr>token_index = 300, total = 5, hold = 100, entry_ntl = 0\<rparr>"
  let ?b301 = "\<lparr>token_index = 301, total = 0, hold = 0, entry_ntl = 0\<rparr>"
  let ?stP = "((), [map (position_request ?A) ?c1, map (position_request ?A) ?c2])"
  let ?stB = "((), [map (spot_balance_request ?A) ?d1, map (spot_balance_request ?A) ?d2])"
  let ?stPF = "((), [map (position_request ?A) ?c1])"
  let ?stBF = "((), [map (spot_balance_request ?A) ?d1])"
  define M :: "unit multicall"
    where "M = (\<lambda>calls w. (Inr ((True, ?P5) # (True, ?P0)
                                   # replicate (length calls - 2) (False, [])), w))"
  define F :: "unit multicall" where "F = (\<lambda>calls w. (Inl TransportFailure, w))"
  have l: "length ?c1 = 200" "length ?c2 = 25" "length ?d1 = 300" "length ?d2 = 125"
    using py_range_unit [of 0 200] py_range_unit [of 200 225]
      py_range_unit [of 0 300] py_range_unit [of 300 425] by simp_all
  have n: "?c1 ! 0 = 0" "?c1 ! 1 = 1" "?c2 ! 0 = 200" "?c2 ! 1 = 201"
    "?d1 ! 0 = 0" "?d1 ! 1 = 1" "?d2 ! 0 = 300" "?d2 ! 1 = 301"
    using py_range_nth [of 0 200 0] py_range_nth [of 1 200 0]
      py_range_nth [of 0 225 200] py_range_nth [of 1 225 200]
      py_range_nth [of 0 300 0] py_range_nth [of 1 300 0]
      py_range_nth [of 0 425 300] py_range_nth [of 1 425 300] by simp_all
  have t: "M (map (position_request ?A) ?c1) ()
           = (Inr ((True, ?P5) # (True, ?P0) # replicate 198 (False, [])), ())"
    "M (map (position_request ?A) ?c2) ()
           = (Inr ((True, ?P5) # (True, ?P0) # replicate 23 (False, [])), ())"
    "M (map (spot_balance_request ?A) ?d1) ()
           = (Inr ((True, ?P5) # (True, ?P0) # replicate 298 (False, [])), ())"
    "M (map (spot_balance_request ?A) ?d2) ()
           = (Inr ((True, ?P5) # (True, ?P0) # replicate 123 (False, [])), ())"
    by (simp_all add: M_def l)
  have len: "32 \<le> length ?P5" "32 \<le> length ?P0" "24 \<le> length ?P5" "24 \<le> length ?P0"
    by (simp_all add: length_be_bytes)
  have dp: "decode_position ?P5 = Some (5, 100, 0, 10, True)"
    "decode_position ?P0 = Some (0, 0, 0, 1, False)"
    using decode_position_words(2) [of 5 100 0 10] decode_position_words(1) [of 0 0 0 1]
    by simp_all
  have db: "decode_spot_balance ?P5 = Some (5, 100, 0)"
    "decode_spot_balance ?P0 = Some (0, 0, 0)"
    using decode_spot_balance_words [of 5 100 0 "be_bytes 32 10 @ be_bytes 32 1"]
      decode_spot_balance_words [of 0 0 0 "be_bytes 32 1 @ be_bytes 32 0"]
    by (simp_all add: is_uint_def)
  have two: "2 \<le> length ?c1" "2 \<le> length ?c2" "2 \<le> length ?d1" "2 \<le> length ?d2"
    using l by simp_all
  have mp: "List.map_filter (position_of ?c1)
              (enumerate 0 ((True, ?P5) # (True, ?P0) # replicate 198 (False, []))) = [?p0, ?p1]"
    "List.map_filter (position_of ?c2)
              (enumerate 0 ((True, ?P5) # (True, ?P0) # replicate 23 (False, []))) = [?p200, ?p201]"
    using positions_two [OF two(1) len(1,2) dp] positions_two [OF two(2) len(1,2) dp]
    by (simp_all only: n)
  have mb: "List.map_filter (balance_of ?d1)
              (enumerate 0 ((True, ?P5) # (True, ?P0) # replicate 298 (False, []))) = [?b0, ?b1]"
    "List.map_filter (balance_of ?d2)
              (enumerate 0 ((True, ?P5) # (True, ?P0) # replicate 123 (False, []))) = [?b300, ?b301]"
    using balances_two [OF two(3) len(3,4) db] balances_two [OF two(4) len(3,4) db]
    by (simp_all only: n)
  have allP: "get_all_positions M ?U ((), []) = (Inr [?p0, ?p1, ?p200, ?p201], ?stP)"
    using get_all_positions_run [of ?U ?A M "()" _ "()" _ "()", OF checksum_example t(1) t(2)]
    by (simp only: mp append_Cons append_Nil)
  have allB: "get_all_spot_balances M ?U ((), []) = (Inr [?b0, ?b1, ?b300, ?b301], ?stB)"
    using get_all_spot_balances_run [of ?U ?A M "()" _ "()" _ "()", OF checksum_example t(3) t(4)]
    by (simp only: mb append_Cons append_Nil)
  have failP: "get_all_positions F ?U ((), []) = (Inl TransportFailure, ?stPF)"
    by (rule get_all_positions_transport_failure [OF checksum_example]) (simp add: F_def)
  have failB: "get_all_spot_balances F ?U ((), []) = (Inl TransportFailure, ?stBF)"
    by (rule get_all_spot_balances_transport_failure [OF checksum_example]) (simp add: F_def)
  note T = non_zero_filters [where mc = M and user = ?U and st = "((), [])"
      and ps = "[?p0, ?p1, ?p200, ?p201]" and st' = ?stP
      and bs = "[?b0, ?b1, ?b300, ?b301]" and st'' = ?stB]
  note TF = non_zero_filters [where mc = F and user = ?U and st = "((), [])"
      and e = TransportFailure and st' = ?stPF and e' = TransportFailure and st'' = ?stBF]
  have nzP: "get_non_zero_positions M ?U ((), []) = (Inr [?p0, ?p200], ?stP)"
    using T [THEN conjunct1] allP by simp
  have nzB: "get_non_zero_balances M ?U ((), []) = (Inr [?b0, ?b300], ?stB)"
    using T [THEN conjunct2, THEN conjunct2, THEN conjunct1] allB by simp
  have nzPF: "get_non_zero_positions F ?U ((), []) = (Inl TransportFailure, ?stPF)"
    using TF [THEN conjunct2, THEN conjunct1] failP by simp
  have nzBF: "get_non_zero_balances F ?U ((), []) = (Inl TransportFailure, ?stBF)"
    using TF [THEN conjunct2, THEN conjunct2, THEN conjunct2] failB by simp
  show ?thesis
    using allP nzP allB nzB failP nzPF failB nzBF unfolding M_def F_def
    by (intro conjI)
qed

end
